theory Spec2Isabelle
  imports Main "HOL-Library.Word" "HOL-Library.Multiset"
begin

section \<open>Strings and run-time failures\<close>

text \<open>
  A Go string is a sequence of bytes, here a \<open>char list\<close>.  A run-time panic of the Go
  program is a value of the model: every function that can panic returns \<open>panic + 'a\<close>.
\<close>

datatype panic =
    AssignToNilMap      \<comment> \<open>assignment to entry in nil map\<close>
  | SliceOutOfRange     \<comment> \<open>slice bounds out of range\<close>
  | NilPointer          \<comment> \<open>invalid memory address or nil pointer dereference\<close>

text \<open>\<open>strings.HasPrefix(s, prefix)\<close>.\<close>

definition HasPrefix :: "string \<Rightarrow> string \<Rightarrow> bool" where
  "HasPrefix s pre = (take (length pre) s = pre)"

text \<open>
  \<open>strings.ToLower\<close> and \<open>strings.ToUpper\<close>.  Both look first whether every byte of
  the string is ASCII (below \<open>utf8.RuneSelf\<close>, 128).  If so the string is mapped byte by
  byte: a byte in \<open>A..Z\<close> (65..90) is moved to \<open>a..z\<close> (97..122), or back.  Any other
  string is handed to \<open>strings.Map\<close> with \<open>unicode.ToLower\<close> (\<open>unicode.ToUpper\<close>),
  which decides by the Unicode case tables of the library.  These two functions of the
  library are the parameters of the model, the record \<open>unicode\<close>.
\<close>

record unicode =
  Map_ToLower :: "string \<Rightarrow> string"
  Map_ToUpper :: "string \<Rightarrow> string"

definition is_ascii :: "string \<Rightarrow> bool" where
  "is_ascii s = list_all (\<lambda>c. (of_char c :: nat) < 128) s"

definition lower_byte :: "char \<Rightarrow> char" where
  "lower_byte c =
     (if 65 \<le> (of_char c :: nat) \<and> (of_char c :: nat) \<le> 90
      then char_of ((of_char c :: nat) + 32) else c)"

definition upper_byte :: "char \<Rightarrow> char" where
  "upper_byte c =
     (if 97 \<le> (of_char c :: nat) \<and> (of_char c :: nat) \<le> 122
      then char_of ((of_char c :: nat) - 32) else c)"

definition ToLower :: "unicode \<Rightarrow> string \<Rightarrow> string" where
  "ToLower uc s = (if is_ascii s then map lower_byte s else Map_ToLower uc s)"

definition ToUpper :: "unicode \<Rightarrow> string \<Rightarrow> string" where
  "ToUpper uc s = (if is_ascii s then map upper_byte s else Map_ToUpper uc s)"


section \<open>The Slack user cache (slack.go)\<close>

record SlackUser =
  Id :: string
  Nick :: string
  Avatar :: string

text \<open>
  The two indexes of the cache are Go maps.  A Go map is \<open>nil\<close> until it is made:
  reading a nil map finds nothing, writing to it panics.  \<open>None\<close> is the nil map.
  The mutex of the cache guards each access; the model runs one call at a time.
\<close>

type_synonym user_index = "(string \<rightharpoonup> SlackUser) option"

record SlackUserCache =
  users :: user_index
  nicks :: user_index

definition index_get :: "user_index \<Rightarrow> string \<Rightarrow> SlackUser option" where
  "index_get m k = (case m of None \<Rightarrow> None | Some f \<Rightarrow> f k)"

definition index_put :: "user_index \<Rightarrow> string \<Rightarrow> SlackUser \<Rightarrow> panic + user_index" where
  "index_put m k v = (case m of None \<Rightarrow> Inl AssignToNilMap | Some f \<Rightarrow> Inr (Some (f(k \<mapsto> v))))"

text \<open>The zero value \<open>&SlackUserCache{}\<close>, and \<open>Setup\<close>, which makes both maps.\<close>

definition zero_cache :: SlackUserCache where
  "zero_cache = \<lparr>users = None, nicks = None\<rparr>"

definition Setup_cache :: "SlackUserCache \<Rightarrow> SlackUserCache" where
  "Setup_cache suc = suc\<lparr>users := Some Map.empty, nicks := Some Map.empty\<rparr>"

definition CacheUser :: "unicode \<Rightarrow> SlackUserCache \<Rightarrow> SlackUser \<Rightarrow> panic + SlackUserCache" where
  "CacheUser uc suc user =
     (case index_put (users suc) (Id user) user of
        Inl p \<Rightarrow> Inl p
      | Inr us \<Rightarrow>
          (case index_put (nicks suc) (ToLower uc (Nick user)) user of
             Inl p \<Rightarrow> Inl p
           | Inr ns \<Rightarrow> Inr (suc\<lparr>users := us, nicks := ns\<rparr>)))"

definition userInIdCache :: "SlackUserCache \<Rightarrow> string \<Rightarrow> SlackUser option" where
  "userInIdCache suc ukey = index_get (users suc) ukey"

definition userInNickCache :: "unicode \<Rightarrow> SlackUserCache \<Rightarrow> string \<Rightarrow> SlackUser option" where
  "userInNickCache uc suc nick = index_get (nicks suc) (ToLower uc nick)"

text \<open>
  The Slack client \<open>sb.api\<close>.  Of the library the model keeps what the broker reads:
  \<open>GetUserInfo\<close> answers a user key with an error (\<open>None\<close>) or with the user's
  \<open>Name\<close> and \<open>Profile.Image72\<close>.  The client is a pointer, and it is \<open>nil\<close>
  (\<open>None\<close>) in a broker that has run \<open>SetupInternals\<close> only; a call on it panics.
\<close>

type_synonym slack_api = "(string \<Rightarrow> (string \<times> string) option) option"

definition UserFromAPI ::
  "unicode \<Rightarrow> slack_api \<Rightarrow> SlackUserCache \<Rightarrow> string \<Rightarrow> panic + (SlackUser option \<times> SlackUserCache)" where
  "UserFromAPI uc api suc ukey =
     (case api of
        None \<Rightarrow> Inl NilPointer
      | Some GetUserInfo \<Rightarrow>
          (case GetUserInfo ukey of
             None \<Rightarrow> Inr (None, suc)
           | Some (name, image72) \<Rightarrow>
               (let suser = \<lparr>Id = ukey, Nick = name, Avatar = image72\<rparr> in
                case CacheUser uc suc suser of
                  Inl p \<Rightarrow> Inl p
                | Inr suc' \<Rightarrow> Inr (Some suser, suc'))))"

definition UserNick ::
  "unicode \<Rightarrow> slack_api \<Rightarrow> SlackUserCache \<Rightarrow> string \<Rightarrow> bool \<Rightarrow> panic + (string \<times> SlackUserCache)" where
  "UserNick uc api suc ukey cacheOnly =
     (case userInIdCache suc ukey of
        Some cached_user \<Rightarrow> Inr (Nick cached_user, suc)
      | None \<Rightarrow>
          if cacheOnly then Inr ('''', suc)
          else (case UserFromAPI uc api suc ukey of
                  Inl p \<Rightarrow> Inl p
                | Inr (None, suc') \<Rightarrow> Inr ('''', suc')
                | Inr (Some user, suc') \<Rightarrow> Inr (Nick user, suc')))"

definition UserId ::
  "unicode \<Rightarrow> slack_api \<Rightarrow> SlackUserCache \<Rightarrow> string \<Rightarrow> bool \<Rightarrow> panic + (string \<times> SlackUserCache)" where
  "UserId uc api suc nick cacheOnly =
     (case userInNickCache uc suc nick of
        Some cached_user \<Rightarrow> Inr (Id cached_user, suc)
      | None \<Rightarrow>
          if cacheOnly then Inr ('''', suc)
          else (case UserFromAPI uc api suc nick of
                  Inl p \<Rightarrow> Inl p
                | Inr (None, suc') \<Rightarrow> Inr ('''', suc')
                | Inr (Some user, suc') \<Rightarrow> Inr (Id user, suc')))"

text \<open>An initialized cache: both maps have been made (by \<open>Setup\<close>).\<close>

definition initialized :: "SlackUserCache \<Rightarrow> bool" where
  "initialized suc = (users suc \<noteq> None \<and> nicks suc \<noteq> None)"


section \<open>Shared types (smug.go)\<close>

text \<open>
  A broker is referred to through its pointer; the model keeps the identity only.
  An interface value that is \<open>nil\<close> is \<open>None\<close>.
\<close>

type_synonym broker_ref = nat

datatype ContentType = CONTENT_DISPLAY | CONTENT_META

record EventBlock =
  Title :: string
  Text_blk :: string
  ImgUrl :: string
  Type :: ContentType

record Event =
  IsCmdOutput :: bool
  Origin :: "broker_ref option"
  ReplyBroker :: "broker_ref option"
  ReplyTarget :: string
  Actor :: string
  Avatar_ev :: string
  Text :: string
  RawText :: string
  ContentBlocks :: "EventBlock list"
  ts :: nat


section \<open>The pattern router (pr.go)\<close>

subsection \<open>Compiled regular expressions\<close>

text \<open>
  A compiled \<open>*regexp.Regexp\<close>, as far as the router uses it: the number of capture
  groups, the name of each group (the empty string for an unnamed one), and the leftmost
  match of a text, which is \<open>None\<close> when the text does not match and otherwise gives the
  text of every group (group 0 is the whole match).  \<open>SubexpNames\<close> and
  \<open>FindStringSubmatch\<close> are the two methods the router calls; as in the library both
  have one entry for each group and one for the whole match, and a text that does not
  match gives the nil slice.
\<close>

record regexp =
  NumSubexp :: nat
  subexp_name :: "nat \<Rightarrow> string"
  submatch :: "string \<Rightarrow> (nat \<Rightarrow> string) option"

definition SubexpNames :: "regexp \<Rightarrow> string list" where
  "SubexpNames r = '''' # map (subexp_name r) [1..<Suc (NumSubexp r)]"

definition FindStringSubmatch :: "regexp \<Rightarrow> string \<Rightarrow> string list" where
  "FindStringSubmatch r text =
     (case submatch r text of
        None \<Rightarrow> []
      | Some g \<Rightarrow> map g [0..<Suc (NumSubexp r)])"

subsection \<open>Patterns\<close>

text \<open>
  The maps of headers and vars are only read and ranged over; a nil map behaves there as
  the empty map, and both are \<open>Map.empty\<close>.
\<close>

record Pattern =
  name_p :: string
  re_p :: regexp
  url_p :: string
  headers_p :: "string \<rightharpoonup> string"
  vars_p :: "string \<rightharpoonup> string"
  method_p :: string
  help_p :: string

text \<open>
  \<open>NewExtendedPattern\<close>.  \<open>Compile\<close> is \<open>regexp.Compile\<close>: an error message or the
  compiled expression.  The composite literal of the source sets \<open>name\<close>, \<open>re\<close>,
  \<open>url\<close>, \<open>headers\<close>, \<open>method\<close> and \<open>help\<close>; the field \<open>vars\<close> is not
  among them and keeps its zero value, the nil map.
\<close>

definition NewExtendedPattern ::
  "unicode \<Rightarrow> (string \<Rightarrow> string + regexp) \<Rightarrow> string \<Rightarrow> string \<Rightarrow> string \<Rightarrow> (string \<rightharpoonup> string)
     \<Rightarrow> (string \<rightharpoonup> string) \<Rightarrow> string \<Rightarrow> string \<Rightarrow> string + Pattern" where
  "NewExtendedPattern uc Compile name reg url headers vars method help =
     (if length url < 10 \<and> \<not> HasPrefix ''http'' (ToLower uc url)
      then Inl ''url must begin with http''
      else (case Compile reg of
              Inl err \<Rightarrow> Inl (''error compiling regex: '' @ err)
            | Inr r \<Rightarrow>
                (let meth = ToUpper uc method in
                 if \<not> (meth = ''GET'' \<or> meth = ''POST'')
                 then Inl ''method must be either GET or POST''
                 else Inr \<lparr>name_p = name, re_p = r, url_p = url, headers_p = headers,
                           vars_p = Map.empty, method_p = method, help_p = help\<rparr>)))"

definition NewPattern :: "unicode \<Rightarrow> (string \<Rightarrow> string + regexp) \<Rightarrow> string \<Rightarrow> string \<Rightarrow> string + Pattern" where
  "NewPattern uc Compile reg url =
     NewExtendedPattern uc Compile ''n/a'' reg url Map.empty Map.empty ''POST'' ''''"

text \<open>
  \<open>ExtractMatches\<close>: the loop over \<open>SubexpNames\<close> with its index, storing
  \<open>matches[i]\<close> under every non-empty name but the one at index 0.  The index is in
  range: both slices have \<open>NumSubexp + 1\<close> entries.
\<close>

fun named_loop :: "(nat \<times> string) list \<Rightarrow> string list \<Rightarrow> (string \<rightharpoonup> string) \<Rightarrow> (string \<rightharpoonup> string)" where
  "named_loop [] matches named = named"
| "named_loop ((i, name) # rest) matches named =
     named_loop rest matches
       (if i \<noteq> 0 \<and> name \<noteq> '''' then named(name \<mapsto> matches ! i) else named)"

definition ExtractMatches :: "Pattern \<Rightarrow> string \<Rightarrow> string list \<times> (string \<rightharpoonup> string)" where
  "ExtractMatches p text =
     (let matches = FindStringSubmatch (re_p p) text in
      if length matches = 0 then (matches, Map.empty)
      else (matches, named_loop (enumerate 0 (SubexpNames (re_p p))) matches Map.empty))"

text \<open>
  \<open>Handle\<close> starts \<open>Submit\<close> as a goroutine and returns.  The model returns the call
  that was started, with its arguments, next to the result.
\<close>

record submit_call =
  sc_pattern :: Pattern
  sc_originEvt :: Event
  sc_actor :: string
  sc_text :: string
  sc_named :: "string \<rightharpoonup> string"

definition Handle :: "Pattern \<Rightarrow> Event \<Rightarrow> bool \<times> submit_call list" where
  "Handle p ev =
     (let (matches, named) = ExtractMatches p (Text ev) in
      if length matches = 0 then (False, [])
      else (True, [\<lparr>sc_pattern = p, sc_originEvt = ev, sc_actor = Actor ev,
                     sc_text = Text ev, sc_named = named\<rparr>]))"

subsection \<open>Submit\<close>

record JsonBlock =
  Text_jb :: string
  Img :: string
  Title_jb :: string

record JsonResponse =
  Text_jr :: string
  Blocks :: "JsonBlock list"

text \<open>
  The request that \<open>Submit\<close> builds.  Its body is the JSON encoding of the payload, a
  JSON object of string members; the model keeps the payload itself.  (\<open>Header.Set\<close>
  of the library also puts a header name in its canonical form, which the model does not.)
\<close>

record request =
  req_method :: string
  req_url :: string
  req_headers :: "string \<rightharpoonup> string"
  req_body :: "string \<rightharpoonup> string"

record response =
  Status :: string
  Body :: string

text \<open>
  What \<open>Submit\<close> calls outside the repository: \<open>http.NewRequest\<close> (does it return a
  request for this method and URL, or nil and an error), \<open>client.Do\<close> (\<open>None\<close> is a
  transport error) with the body as \<open>ioutil.ReadAll\<close> returns it, and
  \<open>json.Unmarshal\<close> into a \<open>JsonResponse\<close> (\<open>None\<close> is an error).
\<close>

record world =
  NewRequest_ok :: "string \<Rightarrow> string \<Rightarrow> bool"
  Do :: "request \<Rightarrow> response option"
  Unmarshal :: "string \<Rightarrow> JsonResponse option"

text \<open>
  The payload: \<open>actor\<close> and \<open>text\<close>, then every named group, then every static var,
  each assignment replacing what the key had.
\<close>

definition payload_of :: "Pattern \<Rightarrow> string \<Rightarrow> string \<Rightarrow> (string \<rightharpoonup> string) \<Rightarrow> (string \<rightharpoonup> string)" where
  "payload_of p actor text named =
     ([''actor'' \<mapsto> actor, ''text'' \<mapsto> text] ++ named) ++ vars_p p"

definition request_of :: "Pattern \<Rightarrow> (string \<rightharpoonup> string) \<Rightarrow> request" where
  "request_of p payload =
     \<lparr>req_method = method_p p, req_url = url_p p,
      req_headers = [''Content-Type'' \<mapsto> ''application/json''] ++ headers_p p,
      req_body = payload\<rparr>"

definition to_EventBlock :: "JsonBlock \<Rightarrow> EventBlock" where
  "to_EventBlock blk =
     \<lparr>Title = Title_jb blk, Text_blk = Text_jb blk, ImgUrl = Img blk, Type = CONTENT_DISPLAY\<rparr>"

text \<open>
  \<open>Submit\<close> returns the events it sends on the feedback channel (none or one).  The
  error of \<open>http.NewRequest\<close> is not looked at: when it fails the request is nil and
  setting the header panics.  \<open>now\<close> is the reading of the clock.
\<close>

definition Submit ::
  "world \<Rightarrow> nat \<Rightarrow> Pattern \<Rightarrow> Event \<Rightarrow> string \<Rightarrow> string \<Rightarrow> (string \<rightharpoonup> string)
     \<Rightarrow> panic + Event list" where
  "Submit w now p originEvt actor text named =
     (let payload = payload_of p actor text named in
      if \<not> NewRequest_ok w (method_p p) (url_p p) then Inl NilPointer
      else (case Do w (request_of p payload) of
              None \<Rightarrow> Inr []
            | Some resp \<Rightarrow>
                if \<not> HasPrefix (Status resp) ''200'' then Inr []
                else if length (Body resp) > 0
                then (case Unmarshal w (Body resp) of
                        None \<Rightarrow> Inr []
                      | Some dat \<Rightarrow>
                          Inr [\<lparr>IsCmdOutput = True, Origin = None,
                                ReplyBroker = ReplyBroker originEvt,
                                ReplyTarget = ReplyTarget originEvt,
                                Actor = '''', Avatar_ev = '''', Text = Text_jr dat,
                                RawText = '''',
                                ContentBlocks = map to_EventBlock (Blocks dat),
                                ts = now\<rparr>])
                else Inr []))"

definition run_submit :: "world \<Rightarrow> nat \<Rightarrow> submit_call \<Rightarrow> panic + Event list" where
  "run_submit w now c =
     Submit w now (sc_pattern c) (sc_originEvt c) (sc_actor c) (sc_text c) (sc_named c)"

subsection \<open>The broker\<close>

text \<open>
  The patterns of a router are the built-in helper, which \<open>Setup\<close> adds first, and the
  configured patterns.  The counters are \<open>int64\<close>.  The feedback channel is the list
  of the events sent on it and not yet received (a send on the full channel waits; the
  model does not bound the list).  \<open>self_prb\<close> is the address of the broker.
\<close>

datatype MetaPattern = HelperPattern | Configured Pattern

record PatternRoutingBroker =
  self_prb :: broker_ref
  patterns :: "MetaPattern list"
  msgsActn :: "64 word"
  msgsRcvd :: "64 word"
  feedback :: "Event list"

definition HelpText_meta :: "MetaPattern \<Rightarrow> string" where
  "HelpText_meta ptn = (case ptn of HelperPattern \<Rightarrow> '''' | Configured p \<Rightarrow> help_p p)"

text \<open>\<open>strings.Join(a, sep)\<close>.\<close>

fun Join :: "string list \<Rightarrow> string \<Rightarrow> string" where
  "Join [] sep = ''''"
| "Join [a] sep = a"
| "Join (a # b # rest) sep = a @ sep @ Join (b # rest) sep"

definition HelpText :: "PatternRoutingBroker \<Rightarrow> string" where
  "HelpText prb = Join (filter (\<lambda>ht. ht \<noteq> '''') (map HelpText_meta (patterns prb))) [CHR 0x0A]"

definition AddPattern :: "PatternRoutingBroker \<Rightarrow> MetaPattern \<Rightarrow> PatternRoutingBroker" where
  "AddPattern prb newp = prb\<lparr>patterns := patterns prb @ [newp]\<rparr>"

definition Setup_prb :: "PatternRoutingBroker \<Rightarrow> PatternRoutingBroker" where
  "Setup_prb prb = AddPattern (prb\<lparr>feedback := []\<rparr>) HelperPattern"

text \<open>
  \<open>Handle\<close> of either kind of pattern: the result, the events it sends on the feedback
  channel itself, and the \<open>Submit\<close> calls it starts.
\<close>

definition Handle_helper :: "PatternRoutingBroker \<Rightarrow> nat \<Rightarrow> Event \<Rightarrow> bool \<times> Event list" where
  "Handle_helper prb now ev =
     (if HasPrefix (Text ev) ''..list''
      then (True, [\<lparr>IsCmdOutput = True, Origin = None, ReplyBroker = ReplyBroker ev,
                     ReplyTarget = ReplyTarget ev, Actor = '''', Avatar_ev = '''',
                     Text = HelpText prb, RawText = '''', ContentBlocks = [], ts = now\<rparr>])
      else (False, []))"

definition Handle_meta ::
  "PatternRoutingBroker \<Rightarrow> nat \<Rightarrow> MetaPattern \<Rightarrow> Event \<Rightarrow> bool \<times> Event list \<times> submit_call list" where
  "Handle_meta prb now ptn ev =
     (case ptn of
        HelperPattern \<Rightarrow> (let (b, sent) = Handle_helper prb now ev in (b, sent, []))
      | Configured p \<Rightarrow> (let (b, started) = Handle p ev in (b, [], started)))"

text \<open>
  The loop of \<open>HandleEvent\<close> over the patterns, leaving at the first one whose
  \<open>Handle\<close> returns true.  The result is the broker and the \<open>Submit\<close> calls started.
\<close>

fun handle_loop ::
  "PatternRoutingBroker \<Rightarrow> nat \<Rightarrow> Event \<Rightarrow> MetaPattern list \<Rightarrow> PatternRoutingBroker \<times> submit_call list" where
  "handle_loop prb now ev [] = (prb, [])"
| "handle_loop prb now ev (ptn # rest) =
     (case Handle_meta prb now ptn ev of
        (fired, sent, started) \<Rightarrow>
          (let prb1 = prb\<lparr>feedback := feedback prb @ sent\<rparr> in
           if fired then (prb1\<lparr>msgsActn := msgsActn prb1 + 1\<rparr>, started)
           else (case handle_loop prb1 now ev rest of
                   (prb2, started2) \<Rightarrow> (prb2, started @ started2))))"

definition HandleEvent ::
  "PatternRoutingBroker \<Rightarrow> nat \<Rightarrow> Event \<Rightarrow> PatternRoutingBroker \<times> submit_call list" where
  "HandleEvent prb now ev =
     handle_loop (prb\<lparr>msgsRcvd := msgsRcvd prb + 1\<rparr>) now ev (patterns prb)"

text \<open>
  One turn of the loop of \<open>Activate\<close>: the next event of the feedback channel, with the
  router as its origin, is what the router broadcasts (\<open>None\<close>: the channel is empty and
  the loop waits).
\<close>

definition Activate_step :: "PatternRoutingBroker \<Rightarrow> (Event \<times> PatternRoutingBroker) option" where
  "Activate_step prb =
     (case feedback prb of
        [] \<Rightarrow> None
      | ev # rest \<Rightarrow> Some (ev\<lparr>Origin := Some (self_prb prb)\<rparr>, prb\<lparr>feedback := rest\<rparr>))"

text \<open>\<open>Heartbeat\<close>: the two counters as they are logged, and the broker with both reset.\<close>

definition Heartbeat :: "PatternRoutingBroker \<Rightarrow> (64 word \<times> 64 word) \<times> PatternRoutingBroker" where
  "Heartbeat prb = ((msgsRcvd prb, msgsActn prb), prb\<lparr>msgsRcvd := 0, msgsActn := 0\<rparr>)"



section \<open>UTF-8 (unicode/utf8 and the runtime's string conversions)\<close>

text \<open>
  A \<open>rune\<close> is a code point; the runes of the program come from decoding strings and
  from zeroed memory.  \<open>rune\<close> is \<open>int32\<close>; no arithmetic is done on runes, and the
  model takes them as integers.  \<open>RuneError\<close> is \<open>U+FFFD\<close>.
\<close>

type_synonym rune = int

definition RuneError :: rune where
  "RuneError = 0xFFFD"

text \<open>A continuation byte, \<open>0x80..0xBF\<close> (\<open>locb\<close> and \<open>hicb\<close> of the library).\<close>

definition is_cont :: "int \<Rightarrow> bool" where
  "is_cont b = (0x80 \<le> b \<and> b \<le> 0xBF)"

text \<open>
  The range \<open>acceptRanges\<close> gives for the second byte, by the first byte: \<open>0xE0\<close>,
  \<open>0xED\<close>, \<open>0xF0\<close> and \<open>0xF4\<close> narrow it (no overlong forms, no surrogates,
  nothing above \<open>U+10FFFF\<close>).
\<close>

definition accept_second :: "int \<Rightarrow> int \<Rightarrow> bool" where
  "accept_second b0 b1 =
     (if b0 = 0xE0 then 0xA0 \<le> b1 \<and> b1 \<le> 0xBF
      else if b0 = 0xED then 0x80 \<le> b1 \<and> b1 \<le> 0x9F
      else if b0 = 0xF0 then 0x90 \<le> b1 \<and> b1 \<le> 0xBF
      else if b0 = 0xF4 then 0x80 \<le> b1 \<and> b1 \<le> 0x8F
      else is_cont b1)"

text \<open>
  \<open>utf8.DecodeRuneInString\<close> on the bytes of a non-empty string (as numbers): the rune
  and its width in bytes.  A first byte in \<open>0x80..0xC1\<close> or \<open>0xF5..0xFF\<close>, a string
  too short for the size the first byte announces and a byte out of its range all give
  \<open>RuneError\<close> with width 1.  The \<open>range\<close> loop over a string decodes in the same way.
\<close>

fun decode_bytes :: "int list \<Rightarrow> rune \<times> nat" where
  "decode_bytes [] = (RuneError, 0)"
| "decode_bytes (b0 # bs) =
     (if b0 < 0x80 then (b0, 1)
      else if b0 < 0xC2 \<or> 0xF5 \<le> b0 then (RuneError, 1)
      else if b0 < 0xE0 then
        (case bs of
           b1 # _ \<Rightarrow>
             if accept_second b0 b1 then ((b0 mod 32) * 64 + b1 mod 64, 2) else (RuneError, 1)
         | _ \<Rightarrow> (RuneError, 1))
      else if b0 < 0xF0 then
        (case bs of
           b1 # b2 # _ \<Rightarrow>
             if accept_second b0 b1 \<and> is_cont b2
             then ((b0 mod 16) * 4096 + (b1 mod 64) * 64 + b2 mod 64, 3)
             else (RuneError, 1)
         | _ \<Rightarrow> (RuneError, 1))
      else
        (case bs of
           b1 # b2 # b3 # _ \<Rightarrow>
             if accept_second b0 b1 \<and> is_cont b2 \<and> is_cont b3
             then ((b0 mod 8) * 262144 + (b1 mod 64) * 4096 + (b2 mod 64) * 64 + b3 mod 64, 4)
             else (RuneError, 1)
         | _ \<Rightarrow> (RuneError, 1)))"

definition DecodeRuneInString :: "string \<Rightarrow> rune \<times> nat" where
  "DecodeRuneInString s = decode_bytes (map of_char (take 4 s))"

text \<open>
  The loop \<open>for _, char := range body\<close> that appends each rune to a slice: the runes of
  a string, in order.
\<close>

fun runes_of :: "string \<Rightarrow> rune list" where
  "runes_of [] = []"
| "runes_of (c # cs) =
     (case DecodeRuneInString (c # cs) of
        (r, w) \<Rightarrow> r # runes_of (drop (w - 1) cs))"

text \<open>The bytes of each rune of a string: the string cut where \<open>range\<close> steps.\<close>

fun rune_chunks :: "string \<Rightarrow> string list" where
  "rune_chunks [] = []"
| "rune_chunks (c # cs) =
     (case DecodeRuneInString (c # cs) of
        (r, w) \<Rightarrow> (c # take (w - 1) cs) # rune_chunks (drop (w - 1) cs))"

text \<open>
  \<open>utf8.EncodeRune\<close>, which the conversion \<open>string([]rune)\<close> applies to each rune: a
  surrogate and a rune outside \<open>0..U+10FFFF\<close> are written as \<open>RuneError\<close>.
\<close>

definition encode_rune :: "rune \<Rightarrow> int list" where
  "encode_rune r =
     (if r < 0 then [0xEF, 0xBF, 0xBD]
      else if r \<le> 0x7F then [r]
      else if r \<le> 0x7FF then [0xC0 + r div 64, 0x80 + r mod 64]
      else if 0x10FFFF < r \<or> (0xD800 \<le> r \<and> r \<le> 0xDFFF) then [0xEF, 0xBF, 0xBD]
      else if r \<le> 0xFFFF then [0xE0 + r div 4096, 0x80 + (r div 64) mod 64, 0x80 + r mod 64]
      else [0xF0 + r div 262144, 0x80 + (r div 4096) mod 64, 0x80 + (r div 64) mod 64,
            0x80 + r mod 64])"

definition string_of_runes :: "rune list \<Rightarrow> string" where
  "string_of_runes rs = concat (map (\<lambda>r. map char_of (encode_rune r)) rs)"


section \<open>Text functions of the Go library used by the Slack broker\<close>

text \<open>A slice expression \<open>s[lo:hi]\<close> on a string: it panics unless \<open>lo \<le> hi \<le> len(s)\<close>.\<close>

definition slice :: "string \<Rightarrow> nat \<Rightarrow> nat \<Rightarrow> panic + string" where
  "slice s lo hi =
     (if lo \<le> hi \<and> hi \<le> length s then Inr (take (hi - lo) (drop lo s))
      else Inl SliceOutOfRange)"

text \<open>
  \<open>strings.Split(s, sep)\<close> for a separator of one byte, which is what the broker
  passes (\<open>"|"\<close>): the pieces between the separators, one more than there are
  separators.
\<close>

fun Split :: "string \<Rightarrow> char \<Rightarrow> string list" where
  "Split [] sep = [[]]"
| "Split (c # cs) sep =
     (if c = sep then [] # Split cs sep
      else (case Split cs sep of
              [] \<Rightarrow> [[c]]
            | piece # pieces \<Rightarrow> (c # piece) # pieces))"

text \<open>\<open>strings.Contains(s, substr)\<close> for a substring of one byte.\<close>

definition Contains :: "string \<Rightarrow> char \<Rightarrow> bool" where
  "Contains s c = (c \<in> set s)"

text \<open>
  \<open>strings.ReplaceAll(s, old, new)\<close>.  For a non-empty \<open>old\<close> the occurrences are
  taken from the left and do not overlap.  For the empty \<open>old\<close> the library puts
  \<open>new\<close> at the start of the string and after each UTF-8 sequence.
\<close>

fun replace_from :: "string \<Rightarrow> string \<Rightarrow> string \<Rightarrow> string" where
  "replace_from old new [] = []"
| "replace_from old new (c # cs) =
     (if HasPrefix (c # cs) old
      then new @ replace_from old new (drop (length old - 1) cs)
      else c # replace_from old new cs)"

definition ReplaceAll :: "string \<Rightarrow> string \<Rightarrow> string \<Rightarrow> string" where
  "ReplaceAll s old new =
     (if old = [] then new @ concat (map (\<lambda>chunk. chunk @ new) (rune_chunks s))
      else replace_from old new s)"



section \<open>The regular expressions of the Slack broker (slack.go, SetupInternals)\<close>

text \<open>
  The four expressions are fixed, and the model has a matcher for each, written from the
  leftmost-first semantics of the \<open>regexp\<close> package: among the matches that start at
  the leftmost possible position, the one a backtracking search finds first, every
  repetition taking as much as it can.  A matcher is given the text from a position on
  and returns the length of the match that starts there, if there is one.  \<open>\w\<close> is
  \<open>[0-9A-Za-z_]\<close>; \<open>.\<close> is any character but the newline.
\<close>

definition is_word :: "char \<Rightarrow> bool" where
  "is_word c =
     (let n = (of_char c :: nat) in
      (48 \<le> n \<and> n \<le> 57) \<or> (65 \<le> n \<and> n \<le> 90) \<or> n = 95 \<or> (97 \<le> n \<and> n \<le> 122))"

definition is_wordbar :: "char \<Rightarrow> bool" where
  "is_wordbar c = (is_word c \<or> c = CHR ''|'')"

text \<open>
  \<open>re_uids = <@(U[\w|]+)>\<close>.  After \<open><@U\<close> the class takes the longest run of its
  characters, which must not be empty and must be followed by \<open>>\<close>; a shorter run
  would be followed by a character of the class, not by \<open>>\<close>.
\<close>

definition match_uids :: "string \<Rightarrow> nat option" where
  "match_uids s =
     (if HasPrefix s ''<@U''
      then (let run = takeWhile is_wordbar (drop 3 s) in
            if run \<noteq> [] \<and> HasPrefix (drop (3 + length run) s) ''>''
            then Some (length run + 4) else None)
      else None)"

text \<open>
  \<open>re_usernick = ^(\w+):\<close>.  Without the multi-line flag \<open>^\<close> is the start of the
  text: the matcher is applied there only.
\<close>

definition match_usernick :: "string \<Rightarrow> nat option" where
  "match_usernick s =
     (let run = takeWhile is_word s in
      if run \<noteq> [] \<and> HasPrefix (drop (length run) s) '':''
      then Some (length run + 1) else None)"

text \<open>
  \<open>re_atusers = @(\w+)\b\<close>.  At the end of the longest run of word characters there
  is a word boundary: the next character, if any, is not a word character.
\<close>

definition match_atusers :: "string \<Rightarrow> nat option" where
  "match_atusers s =
     (if HasPrefix s ''@''
      then (let run = takeWhile is_word (drop 1 s) in
            if run \<noteq> [] then Some (length run + 1) else None)
      else None)"



text \<open>
  \<open>FindAllStringSubmatchIndex(s, -1)\<close>: the matches from left to right, each search
  starting where the match before ended.  A match is given as the source reads it,
  \<open>(m[0], m[1])\<close> the whole match; the group of each of the four expressions lies at a
  fixed distance inside it, which gives \<open>m[2]\<close> and \<open>m[3]\<close>.
\<close>

fun find_all :: "(string \<Rightarrow> nat option) \<Rightarrow> nat \<Rightarrow> string \<Rightarrow> (nat \<times> nat) list" where
  "find_all m i [] = []"
| "find_all m i (c # cs) =
     (case m (c # cs) of
        Some (Suc k) \<Rightarrow> (i, i + Suc k) # find_all m (i + Suc k) (drop k cs)
      | _ \<Rightarrow> find_all m (Suc i) cs)"

type_synonym submatch_index = "nat \<times> nat \<times> nat \<times> nat"

definition find_uids :: "string \<Rightarrow> submatch_index list" where
  "find_uids s = map (\<lambda>(b, e). (b, e, b + 2, e - 1)) (find_all match_uids 0 s)"

definition find_usernick :: "string \<Rightarrow> submatch_index list" where
  "find_usernick s =
     (case match_usernick s of
        Some e \<Rightarrow> [(0, e, 0, e - 1)]
      | None \<Rightarrow> [])"

definition find_atusers :: "string \<Rightarrow> submatch_index list" where
  "find_atusers s = map (\<lambda>(b, e). (b, e, b + 1, e)) (find_all match_atusers 0 s)"



section \<open>The Slack broker (slack.go)\<close>

subsection \<open>Reference translation\<close>

text \<open>
  \<open>ConvertRefsToUsers\<close>.  The first loop goes over the matches from the last to the
  first, looks each id up (the part before \<open>|\<close> when there is one) and keeps the nick
  of the first lookup for each distinct reference; the lookups may call the Slack client
  and fill the cache.  The second loop ranges over the map \<open>uids\<close>.  Go leaves the order
  of a \<open>range\<close> over a map open: \<open>range_order\<close> is the order the run takes, a
  permutation of the entries.
\<close>

fun refs_loop ::
  "unicode \<Rightarrow> slack_api \<Rightarrow> bool \<Rightarrow> string \<Rightarrow> submatch_index list \<Rightarrow> SlackUserCache \<Rightarrow> (string \<times> string) list
     \<Rightarrow> panic + ((string \<times> string) list \<times> SlackUserCache)" where
  "refs_loop uc api cacheOnly s [] suc uids = Inr (uids, suc)"
| "refs_loop uc api cacheOnly s ((m0, m1, m2, m3) # ms) suc uids =
     (case slice s m2 m3 of
        Inl p \<Rightarrow> Inl p
      | Inr uid \<Rightarrow>
          (case (if Contains uid (CHR ''|'')
                 then (case Split uid (CHR ''|'') of
                         [] \<Rightarrow> Inr ('''', suc)
                       | part0 # _ \<Rightarrow> UserNick uc api suc part0 cacheOnly)
                 else UserNick uc api suc uid cacheOnly) of
             Inl p \<Rightarrow> Inl p
           | Inr (nick, suc') \<Rightarrow>
               refs_loop uc api cacheOnly s ms suc'
                 (if map_of uids uid = None then uids @ [(uid, nick)] else uids)))"

fun replace_refs :: "(string \<times> string) list \<Rightarrow> string \<Rightarrow> string" where
  "replace_refs [] s = s"
| "replace_refs ((u, n) # rest) s = replace_refs rest (ReplaceAll s (''<@'' @ u @ ''>'') n)"

definition ConvertRefsToUsers ::
  "unicode \<Rightarrow> ((string \<times> string) list \<Rightarrow> (string \<times> string) list) \<Rightarrow> slack_api \<Rightarrow> SlackUserCache
     \<Rightarrow> string \<Rightarrow> bool \<Rightarrow> panic + (string \<times> SlackUserCache)" where
  "ConvertRefsToUsers uc range_order api suc s cacheOnly =
     (case refs_loop uc api cacheOnly s (rev (find_uids s)) suc [] of
        Inl p \<Rightarrow> Inl p
      | Inr (uids, suc') \<Rightarrow> Inr (replace_refs (range_order uids) s, suc'))"

text \<open>
  \<open>ConvertUsersToRefs\<close>.  Each loop takes the matches of the text as it is when the
  loop begins, from the last to the first, and slices the current text, which the
  replacements of the loop have changed, at the positions of those matches.
\<close>

fun usernick_loop ::
  "unicode \<Rightarrow> slack_api \<Rightarrow> bool \<Rightarrow> submatch_index list \<Rightarrow> SlackUserCache \<Rightarrow> string
     \<Rightarrow> panic + (string \<times> SlackUserCache)" where
  "usernick_loop uc api cacheOnly [] suc s = Inr (s, suc)"
| "usernick_loop uc api cacheOnly ((m0, m1, m2, m3) # ms) suc s =
     (case slice s m2 m3 of
        Inl p \<Rightarrow> Inl p
      | Inr usernick \<Rightarrow>
          (case UserId uc api suc usernick cacheOnly of
             Inl p \<Rightarrow> Inl p
           | Inr (uid, suc') \<Rightarrow>
               usernick_loop uc api cacheOnly ms suc'
                 (if length uid > 4 then ReplaceAll s usernick (''@'' @ uid) else s)))"

fun atusers_loop ::
  "unicode \<Rightarrow> slack_api \<Rightarrow> bool \<Rightarrow> submatch_index list \<Rightarrow> SlackUserCache \<Rightarrow> string
     \<Rightarrow> panic + (string \<times> SlackUserCache)" where
  "atusers_loop uc api cacheOnly [] suc s = Inr (s, suc)"
| "atusers_loop uc api cacheOnly ((m0, m1, m2, m3) # ms) suc s =
     (case slice s m2 m3 of
        Inl p \<Rightarrow> Inl p
      | Inr usernick \<Rightarrow>
          (case UserId uc api suc usernick cacheOnly of
             Inl p \<Rightarrow> Inl p
           | Inr (uid, suc') \<Rightarrow>
               atusers_loop uc api cacheOnly ms suc'
                 (if length uid > 1
                  then ReplaceAll s (''@'' @ usernick) (''<@'' @ uid @ ''>'') else s)))"

definition ConvertUsersToRefs ::
  "unicode \<Rightarrow> slack_api \<Rightarrow> SlackUserCache \<Rightarrow> string \<Rightarrow> bool \<Rightarrow> panic + (string \<times> SlackUserCache)" where
  "ConvertUsersToRefs uc api suc s cacheOnly =
     (case usernick_loop uc api cacheOnly (rev (find_usernick s)) suc s of
        Inl p \<Rightarrow> Inl p
      | Inr (s1, suc1) \<Rightarrow> atusers_loop uc api cacheOnly (rev (find_atusers s1)) suc1 s1)"

subsection \<open>SimplifyParse\<close>




subsection \<open>HandleEvent\<close>

text \<open>
  The broker, with its own address (\<open>self_sb\<close>), and the message it posts: the
  destination, the content (the blocks when the event has any, otherwise the text), the
  user name and the icon.
\<close>

record SlackBroker =
  self_sb :: broker_ref
  api_sb :: slack_api
  usercache :: SlackUserCache
  chanid :: string
  channel :: string
  mybotid :: string
  msgsSent_sb :: "64 word"
  msgsRcvd_sb :: "64 word"

datatype slack_block = SectionBlock string "string option"

datatype msg_content = MsgOptionBlocks "slack_block list" | MsgOptionText string

record posted_message =
  pm_dest :: string
  pm_content :: msg_content
  pm_username :: string
  pm_icon :: string

definition blocks_of :: "EventBlock \<Rightarrow> slack_block list" where
  "blocks_of db =
     (if length (Title db) > 0 then [SectionBlock (''*'' @ Title db @ ''*'') None] else [])
     @ (if Text_blk db = '''' \<and> ImgUrl db = '''' then []
        else if length (ImgUrl db) > 0 then [SectionBlock (Text_blk db) (Some (ImgUrl db))]
        else [SectionBlock (Text_blk db) None])"

definition HandleEvent_sb ::
  "unicode \<Rightarrow> SlackBroker \<Rightarrow> Event \<Rightarrow> panic + (SlackBroker \<times> posted_message list)" where
  "HandleEvent_sb uc sb ev =
     (if ReplyBroker ev \<noteq> None \<and> ReplyBroker ev \<noteq> Some (self_sb sb) then Inr (sb, [])
      else (let sb1 = sb\<lparr>msgsRcvd_sb := msgsRcvd_sb sb + 1\<rparr> in
            case ConvertUsersToRefs uc (api_sb sb1) (usercache sb1) (Text ev) False of
              Inl p \<Rightarrow> Inl p
            | Inr (txt, suc') \<Rightarrow>
                (let dest = (if length (ReplyTarget ev) = 0 then chanid sb1 else ReplyTarget ev);
                     msgContent =
                       (if length (ContentBlocks ev) > 0
                        then MsgOptionBlocks (concat (map blocks_of (ContentBlocks ev)))
                        else MsgOptionText txt)
                 in case api_sb sb1 of
                      None \<Rightarrow> Inl NilPointer
                    | Some client \<Rightarrow>
                        Inr (sb1\<lparr>usercache := suc'\<rparr>,
                             [\<lparr>pm_dest = dest, pm_content = msgContent,
                               pm_username = Actor ev,
                               pm_icon = '':avatar_'' @ Actor ev @ '':''\<rparr>]))))"


section \<open>ChunkSplit\<close>

text \<open>
  A slice of runes: the elements it shows (its length is their number) and its capacity.
  The slices of \<open>ChunkSplit\<close> are built by \<open>append\<close> from the nil slice, so the
  part of the array between the length and the capacity is zeroed memory, and a slice
  expression that reaches into it reads zeros.
\<close>

record rune_slice =
  rs_elems :: "rune list"
  rs_cap :: nat

definition nil_slice :: rune_slice where
  "nil_slice = \<lparr>rs_elems = [], rs_cap = 0\<rparr>"

text \<open>
  \<open>append(s, r)\<close>.  When the capacity is used up the runtime moves the elements to a
  new array; how large it makes it is the runtime's choice (\<open>growslice\<close>, by the old
  capacity and the length needed), here the parameter \<open>grow\<close>.  The language promises
  only that the new capacity suffices.
\<close>

definition append_rune :: "(nat \<Rightarrow> nat \<Rightarrow> nat) \<Rightarrow> rune_slice \<Rightarrow> rune \<Rightarrow> rune_slice" where
  "append_rune grow s r =
     (if length (rs_elems s) < rs_cap s then s\<lparr>rs_elems := rs_elems s @ [r]\<rparr>
      else \<lparr>rs_elems = rs_elems s @ [r], rs_cap = grow (rs_cap s) (length (rs_elems s) + 1)\<rparr>)"

fun append_runes :: "(nat \<Rightarrow> nat \<Rightarrow> nat) \<Rightarrow> rune_slice \<Rightarrow> rune list \<Rightarrow> rune_slice" where
  "append_runes grow s [] = s"
| "append_runes grow s (r # rs) = append_runes grow (append_rune grow s r) rs"

text \<open>
  The two slice expressions of the loop and their panics, as the runtime reports them:
  \<open>s[:hi]\<close> is in range when \<open>0 \<le> hi \<le> cap(s)\<close>, and \<open>s[lo:]\<close>, which is
  \<open>s[lo:len(s)]\<close>, when \<open>0 \<le> lo \<le> len(s)\<close>.
\<close>

datatype slice_panic =
    HighOutOfRange int nat   \<comment> \<open>slice bounds out of range \<open>[:hi]\<close> with capacity \<open>c\<close>\<close>
  | LowOutOfRange int nat    \<comment> \<open>slice bounds out of range \<open>[lo:len]\<close>\<close>

definition slice_to :: "rune_slice \<Rightarrow> int \<Rightarrow> slice_panic + rune list" where
  "slice_to s hi =
     (if 0 \<le> hi \<and> nat hi \<le> rs_cap s
      then Inr (take (nat hi) (rs_elems s @ replicate (rs_cap s - length (rs_elems s)) 0))
      else Inl (HighOutOfRange hi (rs_cap s)))"

definition slice_from :: "rune_slice \<Rightarrow> int \<Rightarrow> slice_panic + rune_slice" where
  "slice_from s lo =
     (if 0 \<le> lo \<and> nat lo \<le> length (rs_elems s)
      then Inr \<lparr>rs_elems = drop (nat lo) (rs_elems s), rs_cap = rs_cap s - nat lo\<rparr>
      else Inl (LowOutOfRange lo (length (rs_elems s))))"

text \<open>
  The loop \<open>for len(charSlice) >= 1\<close>.  With \<open>limit = 0\<close> it never ends; \<open>None\<close> is
  the run that does not return.
\<close>

partial_function (option) chunk_loop ::
  "rune_slice \<Rightarrow> int \<Rightarrow> string list \<Rightarrow> (slice_panic + string list) option" where
  "chunk_loop charSlice limit result =
     (if length (rs_elems charSlice) \<ge> 1
      then (case slice_to charSlice limit of
              Inl p \<Rightarrow> Some (Inl p)
            | Inr chunk \<Rightarrow>
                (case slice_from charSlice limit of
                   Inl p \<Rightarrow> Some (Inl p)
                 | Inr charSlice' \<Rightarrow>
                     chunk_loop charSlice'
                       (if int (length (rs_elems charSlice')) < limit
                        then int (length (rs_elems charSlice')) else limit)
                       (result @ [string_of_runes chunk])))
      else Some (Inr result))"

declare chunk_loop.simps [code]

text \<open>
  \<open>ChunkSplit(body, limit)\<close>: the runes of \<open>body\<close>, as \<open>range\<close> reads them, are
  appended one by one to the nil slice, and the loop starts from the empty result.  The
  function only compares \<open>limit\<close> and slices with it, so no arithmetic on it can wrap,
  and the model takes it as an integer.
\<close>

definition ChunkSplit ::
  "(nat \<Rightarrow> nat \<Rightarrow> nat) \<Rightarrow> string \<Rightarrow> int \<Rightarrow> (slice_panic + string list) option" where
  "ChunkSplit grow body limit =
     chunk_loop (append_runes grow nil_slice (runes_of body)) limit []"


section \<open>Notions the properties are stated with\<close>

text \<open>
  The text of an event matches a pattern: for a configured pattern its regular expression
  finds a match (\<open>len(matches) != 0\<close> in \<open>Handle\<close>), for the helper the text begins
  with \<open>..list\<close>.
\<close>

definition matches_meta :: "MetaPattern \<Rightarrow> Event \<Rightarrow> bool" where
  "matches_meta ptn ev =
     (case ptn of
        HelperPattern \<Rightarrow> HasPrefix (Text ev) ''..list''
      | Configured p \<Rightarrow> length (FindStringSubmatch (re_p p) (Text ev)) \<noteq> 0)"

text \<open>The request that \<open>Submit\<close> sends when \<open>Handle\<close> has started it for an event.\<close>

definition submitted_request :: "Pattern \<Rightarrow> Event \<Rightarrow> request" where
  "submitted_request p ev =
     request_of p (payload_of p (Actor ev) (Text ev) (snd (ExtractMatches p (Text ev))))"

text \<open>
  \<open>resp.Status\<close> is the status line without the protocol version, such as
  \<open>200 OK\<close>: the three digits of the status code come first.  A 2xx status is one
  whose code begins with 2.
\<close>

definition is_digit :: "char \<Rightarrow> bool" where
  "is_digit c = (48 \<le> (of_char c :: nat) \<and> (of_char c :: nat) \<le> 57)"

definition is_2xx :: "string \<Rightarrow> bool" where
  "is_2xx status =
     (case status of
        a # b # c # rest \<Rightarrow> a = CHR ''2'' \<and> is_digit b \<and> is_digit c
      | _ \<Rightarrow> False)"

text \<open>
  The id of a mention \<open><@uid>\<close> that \<open>ConvertRefsToUsers\<close> looks up: the part of the
  group before the first \<open>|\<close> when the group has one, the group otherwise.
\<close>

definition ref_key :: "string \<Rightarrow> string" where
  "ref_key uid = (if Contains uid (CHR ''|'') then hd (Split uid (CHR ''|'')) else uid)"

text \<open>
  A list cut into pieces of \<open>k\<close> elements, the last piece taking what is left: the
  chunks that \<open>ChunkSplit\<close> is meant to return.
\<close>

fun chunks_of :: "nat \<Rightarrow> 'a list \<Rightarrow> 'a list list" where
  "chunks_of k [] = []"
| "chunks_of k (x # xs) =
     (if k = 0 then [x # xs]
      else take k (x # xs) # chunks_of k (drop (k - 1) xs))"

text \<open>\<open>utf8.RuneCountInString\<close>.\<close>

definition RuneCountInString :: "string \<Rightarrow> nat" where
  "RuneCountInString s = length (runes_of s)"

text \<open>\<open>utf8.ValidRune\<close>: a code point that is not a surrogate.\<close>

definition ValidRune :: "rune \<Rightarrow> bool" where
  "ValidRune r = (0 \<le> r \<and> r \<le> 0x10FFFF \<and> \<not> (0xD800 \<le> r \<and> r \<le> 0xDFFF))"

text \<open>
  \<open>utf8.ValidString\<close>: no step of the decoding meets an invalid byte (which is what
  gives \<open>RuneError\<close> with width 1).
\<close>

fun ValidString :: "string \<Rightarrow> bool" where
  "ValidString [] = True"
| "ValidString (c # cs) =
     (case DecodeRuneInString (c # cs) of
        (r, w) \<Rightarrow> \<not> (r = RuneError \<and> w = 1) \<and> ValidString (drop (w - 1) cs))"


section \<open>Example values\<close>

text \<open>
  An expression with one group, named \<open>city\<close>, that matches every text, the group
  taking the whole text, as \<open>(?s)(?P<city>.*)\<close> compiles to.
\<close>

definition re_city :: regexp where
  "re_city = \<lparr>NumSubexp = 1, subexp_name = (\<lambda>i. ''city''), submatch = (\<lambda>text. Some (\<lambda>i. text))\<rparr>"

definition p_wx :: Pattern where
  "p_wx = \<lparr>name_p = ''wx'', re_p = re_city, url_p = ''https://example.com/weather'',
           headers_p = Map.empty, vars_p = Map.empty, method_p = ''POST'', help_p = ''''\<rparr>"

definition ev_austin :: Event where
  "ev_austin = \<lparr>IsCmdOutput = False, Origin = Some 1, ReplyBroker = Some 1,
                ReplyTarget = ''D42'', Actor = ''bob'', Avatar_ev = '''', Text = ''austin'',
                RawText = ''austin'', ContentBlocks = [], ts = 0\<rparr>"

definition prb_two :: PatternRoutingBroker where
  "prb_two = \<lparr>self_prb = 2, patterns = [HelperPattern, Configured p_wx, Configured p_wx],
              msgsActn = 0, msgsRcvd = 0, feedback = []\<rparr>"

definition world_status :: "string \<Rightarrow> world" where
  \<open>world_status st =
     \<lparr>NewRequest_ok = (\<lambda>m u. True),
      Do = (\<lambda>req. Some \<lparr>Status = st, Body = ''{"text":"ok","blocks":[]}''\<rparr>),
      Unmarshal = (\<lambda>body. Some \<lparr>Text_jr = ''ok'', Blocks = []\<rparr>)\<rparr>\<close>

text \<open>
  Case maps that return a string with bytes outside ASCII as it is.  The strings of the
  examples are ASCII, and for them the case maps are not consulted.
\<close>

definition plain_unicode :: unicode where
  "plain_unicode = \<lparr>Map_ToLower = (\<lambda>s. s), Map_ToUpper = (\<lambda>s. s)\<rparr>"

text \<open>A cache that holds the user \<open>U12345\<close> with the nick \<open>bob\<close>.\<close>

definition cache_bob :: SlackUserCache where
  "cache_bob =
     \<lparr>users = Some [''U12345'' \<mapsto> \<lparr>Id = ''U12345'', Nick = ''bob'', Avatar = ''''\<rparr>],
      nicks = Some [''bob'' \<mapsto> \<lparr>Id = ''U12345'', Nick = ''bob'', Avatar = ''''\<rparr>]\<rparr>"

definition sb_one :: SlackBroker where
  "sb_one = \<lparr>self_sb = 1, api_sb = None, usercache = cache_bob, chanid = ''C1'',
             channel = ''general'', mybotid = ''B1'', msgsSent_sb = 0, msgsRcvd_sb = 0\<rparr>"

text \<open>
  A growth of capacities for the examples: 2, 4 and 8, the capacities the runtime of Go
  gives a slice of runes that grows by one element at a time up to eight elements, and
  beyond them twice the length needed.
\<close>

definition grow_small :: "nat \<Rightarrow> nat \<Rightarrow> nat" where
  "grow_small c n = (if n \<le> 2 then 2 else if n \<le> 4 then 4 else if n \<le> 8 then 8 else 2 * n)"


section \<open>Properties of the user cache\<close>

lemma initialized_Setup_cache: "initialized (Setup_cache suc)"
  by (simp add: initialized_def Setup_cache_def)

lemma CacheUser_initialized:
  assumes "initialized suc"
  obtains us ns where "users suc = Some us" and "nicks suc = Some ns"
    and "CacheUser uc suc user =
           Inr (suc\<lparr>users := Some (us(Id user \<mapsto> user)),
                    nicks := Some (ns(ToLower uc (Nick user) \<mapsto> user))\<rparr>)"
  using assms by (auto simp: initialized_def CacheUser_def index_put_def)

text \<open>
  Claim C7.  On an initialized cache \<open>CacheUser\<close> succeeds, and in the cache it returns
  the record is found under its id by \<open>UserNick\<close> and under every casing of its nick by
  \<open>UserId\<close>, both in cache-only mode, whatever the Slack client is (it is not called).
  For \<open>{Id: "U1", Nick: "Bob"}\<close> this gives \<open>"Bob"\<close> for \<open>"U1"\<close> and \<open>"U1"\<close> for
  \<open>"bob"\<close>.
\<close>

theorem CacheUser_then_lookup:
  assumes "initialized suc"
  shows "\<exists>suc'. CacheUser uc suc user = Inr suc' \<and> initialized suc'
           \<and> UserNick uc api suc' (Id user) True = Inr (Nick user, suc')
           \<and> (\<forall>nick. ToLower uc nick = ToLower uc (Nick user)
                  \<longrightarrow> UserId uc api suc' nick True = Inr (Id user, suc'))"
proof -
  from assms obtain us ns where c:
    "CacheUser uc suc user =
       Inr (suc\<lparr>users := Some (us(Id user \<mapsto> user)),
                nicks := Some (ns(ToLower uc (Nick user) \<mapsto> user))\<rparr>)"
    by (rule CacheUser_initialized)
  let ?suc' = "suc\<lparr>users := Some (us(Id user \<mapsto> user)),
                    nicks := Some (ns(ToLower uc (Nick user) \<mapsto> user))\<rparr>"
  have i: "initialized ?suc'"
    by (simp add: initialized_def)
  have n: "UserNick uc api ?suc' (Id user) True = Inr (Nick user, ?suc')"
    by (simp add: UserNick_def userInIdCache_def index_get_def)
  have u: "UserId uc api ?suc' nick True = Inr (Id user, ?suc')"
    if "ToLower uc nick = ToLower uc (Nick user)" for nick
    using that by (simp add: UserId_def userInNickCache_def index_get_def)
  from c i n u show ?thesis by blast
qed

theorem CacheUser_then_lookup_witness:
  "initialized (Setup_cache zero_cache)
   \<and> (\<exists>suc'. CacheUser plain_unicode (Setup_cache zero_cache) \<lparr>Id = ''U1'', Nick = ''Bob'', Avatar = ''''\<rparr> = Inr suc'
         \<and> UserNick plain_unicode None suc' ''U1'' True = Inr (''Bob'', suc')
         \<and> UserId plain_unicode None suc' ''bob'' True = Inr (''U1'', suc')
         \<and> UserId plain_unicode None suc' ''BOB'' True = Inr (''U1'', suc'))"
proof -
  let ?u = "\<lparr>Id = ''U1'', Nick = ''Bob'', Avatar = ''''\<rparr>"
  have h: "initialized (Setup_cache zero_cache)"
    by (rule initialized_Setup_cache)
  have l1: "ToLower plain_unicode ''bob'' = ToLower plain_unicode (Nick ?u)" by code_simp
  have l2: "ToLower plain_unicode ''BOB'' = ToLower plain_unicode (Nick ?u)" by code_simp
  from CacheUser_then_lookup [OF h, where user = ?u and api = None and uc = plain_unicode]
  obtain suc' where
    s: "CacheUser plain_unicode (Setup_cache zero_cache) ?u = Inr suc'"
       "UserNick plain_unicode None suc' (Id ?u) True = Inr (Nick ?u, suc')"
       "\<forall>nick. ToLower plain_unicode nick = ToLower plain_unicode (Nick ?u) \<longrightarrow> UserId plain_unicode None suc' nick True = Inr (Id ?u, suc')"
    by blast
  from s(3) l1 have b1: "UserId plain_unicode None suc' ''bob'' True = Inr (Id ?u, suc')" by blast
  from s(3) l2 have b2: "UserId plain_unicode None suc' ''BOB'' True = Inr (Id ?u, suc')" by blast
  from h s(1) s(2) b1 b2 show ?thesis by auto
qed


section \<open>Properties of the pattern router\<close>

subsection \<open>The first matching pattern is the only one that acts\<close>

lemma Handle_meta_fires:
  "fst (Handle_meta prb now ptn ev) = matches_meta ptn ev"
  by (cases ptn)
     (auto simp: Handle_meta_def Handle_helper_def Handle_def ExtractMatches_def
        matches_meta_def Let_def split: prod.splits)

lemma Handle_meta_quiet:
  "\<not> matches_meta ptn ev \<Longrightarrow> Handle_meta prb now ptn ev = (False, [], [])"
  by (cases ptn)
     (auto simp: Handle_meta_def Handle_helper_def Handle_def ExtractMatches_def
        matches_meta_def Let_def split: prod.splits)

lemma Handle_meta_acts:
  "matches_meta ptn ev \<Longrightarrow>
     \<exists>sent started. Handle_meta prb now ptn ev = (True, sent, started)
        \<and> length sent + length started = 1"
  by (cases ptn)
     (auto simp: Handle_meta_def Handle_helper_def Handle_def ExtractMatches_def
        matches_meta_def Let_def split: prod.splits)

lemma handle_loop_skip:
  "\<forall>q\<in>set before. \<not> matches_meta q ev \<Longrightarrow>
     handle_loop prb now ev (before @ rest) = handle_loop prb now ev rest"
  by (induction before arbitrary: prb) (simp_all add: Handle_meta_quiet)

lemma handle_loop_none:
  "\<forall>q\<in>set ps. \<not> matches_meta q ev \<Longrightarrow> handle_loop prb now ev ps = (prb, [])"
  using handle_loop_skip [of ps ev prb now "[]"] by simp

lemma Handle_meta_counters:
  "Handle_meta (prb\<lparr>msgsRcvd := r\<rparr>) now ptn ev = Handle_meta prb now ptn ev"
  by (simp add: Handle_meta_def Handle_helper_def HelpText_def split: MetaPattern.splits)

lemma HandleEvent_first_match:
  assumes "patterns prb = before @ ptn # after"
    and "\<forall>q\<in>set before. \<not> matches_meta q ev"
    and "Handle_meta prb now ptn ev = (True, sent, started)"
  shows "HandleEvent prb now ev =
           (prb\<lparr>msgsRcvd := msgsRcvd prb + 1, feedback := feedback prb @ sent,
                 msgsActn := msgsActn prb + 1\<rparr>, started)"
  using assms
  by (simp add: HandleEvent_def handle_loop_skip Handle_meta_counters)

lemma Handle_Configured:
  "matches_meta (Configured p) ev \<Longrightarrow>
     Handle_meta prb now (Configured p) ev =
       (True, [], [\<lparr>sc_pattern = p, sc_originEvt = ev, sc_actor = Actor ev, sc_text = Text ev,
                    sc_named = snd (ExtractMatches p (Text ev))\<rparr>])"
  by (auto simp: Handle_meta_def Handle_def ExtractMatches_def matches_meta_def Let_def
        split: prod.splits)

text \<open>
  Claim C2.  Let the patterns of the router be \<open>before @ ptn # after\<close>, where the text
  of the event matches \<open>ptn\<close> and none of the patterns before it.  Then \<open>HandleEvent\<close>
  counts the event as received, \<open>ptn\<close> is the pattern whose \<open>Handle\<close> returns true,
  the actioned counter goes up by one, and what the router has done is what this one
  \<open>Handle\<close> did, a single action (one \<open>Submit\<close> started, or one help event sent):
  the patterns after it, matching or not, add nothing.
\<close>

theorem first_match_only:
  assumes "patterns prb = before @ ptn # after"
    and "\<forall>q\<in>set before. \<not> matches_meta q ev"
    and "matches_meta ptn ev"
  shows "\<exists>sent started.
           Handle_meta prb now ptn ev = (True, sent, started)
           \<and> length sent + length started = 1
           \<and> HandleEvent prb now ev =
               (prb\<lparr>msgsRcvd := msgsRcvd prb + 1, feedback := feedback prb @ sent,
                     msgsActn := msgsActn prb + 1\<rparr>, started)"
proof -
  from assms(3) obtain sent started where
    h: "Handle_meta prb now ptn ev = (True, sent, started)"
    and n: "length sent + length started = 1"
    using Handle_meta_acts by blast
  from HandleEvent_first_match [OF assms(1) assms(2) h] h n show ?thesis by blast
qed

subsection \<open>Responses\<close>

lemma not_2xx_not_200: "\<not> is_2xx status \<Longrightarrow> \<not> HasPrefix status ''200''"
  by (auto simp: is_2xx_def HasPrefix_def is_digit_def split: list.splits)

text \<open>
  Claim C5.  When the first matching pattern is a configured one and the HTTP call of its
  \<open>Submit\<close> fails in transport or returns a status that is not 2xx, \<open>Submit\<close> sends no
  feedback event, and \<open>HandleEvent\<close> has counted the event both as received and as
  actioned.
\<close>

theorem failed_call_counted:
  assumes "patterns prb = before @ Configured p # after"
    and "\<forall>q\<in>set before. \<not> matches_meta q ev"
    and "matches_meta (Configured p) ev"
    and "NewRequest_ok w (method_p p) (url_p p)"
    and "Do w (submitted_request p ev) = None
         \<or> (\<exists>resp. Do w (submitted_request p ev) = Some resp \<and> \<not> is_2xx (Status resp))"
  shows "\<exists>prb' c. HandleEvent prb now ev = (prb', [c])
           \<and> msgsRcvd prb' = msgsRcvd prb + 1
           \<and> msgsActn prb' = msgsActn prb + 1
           \<and> feedback prb' = feedback prb
           \<and> run_submit w now' c = Inr []"
proof -
  let ?c = "\<lparr>sc_pattern = p, sc_originEvt = ev, sc_actor = Actor ev, sc_text = Text ev,
             sc_named = snd (ExtractMatches p (Text ev))\<rparr>"
  have h: "Handle_meta prb now (Configured p) ev = (True, [], [?c])"
    using assms(3) by (rule Handle_Configured)
  have e: "HandleEvent prb now ev =
             (prb\<lparr>msgsRcvd := msgsRcvd prb + 1, feedback := feedback prb @ [],
                   msgsActn := msgsActn prb + 1\<rparr>, [?c])"
    by (rule HandleEvent_first_match [OF assms(1) assms(2) h])
  have r: "run_submit w now' ?c = Inr []"
    using assms(4) assms(5)
    by (auto simp: run_submit_def Submit_def submitted_request_def Let_def not_2xx_not_200)
  from e r show ?thesis by simp
qed

text \<open>
  Claim C4, amended.  Let the HTTP call return a response.  When its status begins with
  \<open>200\<close> and its body is \<open>{"text":"ok","blocks":[]}\<close>, which \<open>json.Unmarshal\<close>
  decodes to the text \<open>ok\<close> and no blocks, \<open>Submit\<close> sends exactly one feedback event;
  its text is \<open>ok\<close>, it has no content blocks, and its \<open>ReplyBroker\<close> and
  \<open>ReplyTarget\<close> are those of the originating event.  When the status does not begin
  with \<open>200\<close>, whatever it is and whatever the body, \<open>Submit\<close> sends nothing.
\<close>

theorem feedback_on_200:
  assumes "NewRequest_ok w (method_p p) (url_p p)"
    and "Do w (request_of p (payload_of p actor text named)) = Some resp"
  shows \<open>(HasPrefix (Status resp) ''200''
            \<and> Body resp = ''{"text":"ok","blocks":[]}''
            \<and> Unmarshal w (Body resp) = Some \<lparr>Text_jr = ''ok'', Blocks = []\<rparr>
          \<longrightarrow> (\<exists>e. Submit w now p originEvt actor text named = Inr [e]
                 \<and> Text e = ''ok'' \<and> ContentBlocks e = []
                 \<and> ReplyBroker e = ReplyBroker originEvt
                 \<and> ReplyTarget e = ReplyTarget originEvt))
         \<and> (\<not> HasPrefix (Status resp) ''200''
          \<longrightarrow> Submit w now p originEvt actor text named = Inr [])\<close>
proof -
  have ok: "\<exists>e. Submit w now p originEvt actor text named = Inr [e]
                 \<and> Text e = ''ok'' \<and> ContentBlocks e = []
                 \<and> ReplyBroker e = ReplyBroker originEvt
                 \<and> ReplyTarget e = ReplyTarget originEvt"
    if "HasPrefix (Status resp) ''200''" \<open>Body resp = ''{"text":"ok","blocks":[]}''\<close>
      "Unmarshal w (Body resp) = Some \<lparr>Text_jr = ''ok'', Blocks = []\<rparr>"
  proof -
    from that(2) have "length (Body resp) > 0" by simp
    with assms that(1) that(3) show ?thesis
      by (simp add: Submit_def Let_def)
  qed
  have other: "Submit w now p originEvt actor text named = Inr []"
    if "\<not> HasPrefix (Status resp) ''200''"
    using assms that by (simp add: Submit_def Let_def)
  from ok other show ?thesis by blast
qed


subsection \<open>Construction of patterns\<close>

lemma payload_of_keys:
  "dom (payload_of p actor text named) = {''actor'', ''text''} \<union> dom named \<union> dom (vars_p p)"
  by (auto simp: payload_of_def)

lemma payload_of_var_wins:
  "vars_p p k = Some v \<Longrightarrow> payload_of p actor text named k = Some v"
  by (simp add: payload_of_def)

text \<open>
  Claim C1 fails on the code.  \<open>Submit\<close> merges the field \<open>vars\<close> of the pattern into
  the payload, but a pattern made by \<open>NewExtendedPattern\<close> never has any: the static vars
  given to the constructor are not stored.  The keys of the payload are \<open>actor\<close>,
  \<open>text\<close> and the names of the named groups, whatever static vars were configured.
\<close>

theorem NewExtendedPattern_drops_vars:
  assumes "NewExtendedPattern uc Compile name reg url headers vars method help = Inr p"
  shows "vars_p p = Map.empty
         \<and> dom (payload_of p actor text named) = {''actor'', ''text''} \<union> dom named"
  using assms
  by (auto simp: NewExtendedPattern_def payload_of_def Let_def split: if_splits sum.splits)

text \<open>
  Claim C3 fails on the code.  The test of the URL is
  \<open>len(url) < 10 && !strings.HasPrefix("http", strings.ToLower(url))\<close>, with the
  arguments of \<open>HasPrefix\<close> in the wrong order: a URL of ten bytes or more is never
  refused, and a shorter one is refused unless it is a prefix of \<open>http\<close>.  So
  \<open>ftp://example.com\<close> gives a pattern, and \<open>http://a\<close> gives the error.
\<close>

theorem NewExtendedPattern_url_check:
  "NewExtendedPattern uc (\<lambda>reg. Inr r) name reg ''ftp://example.com'' headers vars ''GET'' help =
     Inr \<lparr>name_p = name, re_p = r, url_p = ''ftp://example.com'', headers_p = headers,
          vars_p = Map.empty, method_p = ''GET'', help_p = help\<rparr>
   \<and> NewExtendedPattern uc (\<lambda>reg. Inr r) name reg ''http://a'' headers vars ''GET'' help =
     Inl ''url must begin with http''"
  by (simp add: NewExtendedPattern_def ToUpper_def upper_byte_def ToLower_def lower_byte_def
        is_ascii_def HasPrefix_def)

lemma matches_wx: "matches_meta (Configured p_wx) ev_austin"
  by (simp add: matches_meta_def p_wx_def re_city_def FindStringSubmatch_def)

lemma no_help: "\<not> matches_meta HelperPattern ev_austin"
  by (simp add: matches_meta_def ev_austin_def HasPrefix_def)

theorem first_match_only_witness:
  "patterns prb_two = [HelperPattern] @ Configured p_wx # [Configured p_wx]
   \<and> matches_meta (Configured p_wx) ev_austin
   \<and> (\<exists>c. HandleEvent prb_two 5 ev_austin =
             (prb_two\<lparr>msgsRcvd := 1, msgsActn := 1\<rparr>, [c]) \<and> sc_pattern c = p_wx)"
proof -
  have a: "patterns prb_two = [HelperPattern] @ Configured p_wx # [Configured p_wx]"
    by (simp add: prb_two_def)
  have b: "\<forall>q\<in>set [HelperPattern]. \<not> matches_meta q ev_austin"
    using no_help by simp
  from first_match_only [OF a b matches_wx, of 5] obtain sent started where
    h: "Handle_meta prb_two 5 (Configured p_wx) ev_austin = (True, sent, started)"
    and e: "HandleEvent prb_two 5 ev_austin =
               (prb_two\<lparr>msgsRcvd := msgsRcvd prb_two + 1, feedback := feedback prb_two @ sent,
                     msgsActn := msgsActn prb_two + 1\<rparr>, started)"
    by blast
  from h have s: "sent = []" "\<exists>c. started = [c] \<and> sc_pattern c = p_wx"
    using matches_wx by (auto simp: Handle_Configured)
  from s(2) obtain c where c: "started = [c]" "sc_pattern c = p_wx" by blast
  have "HandleEvent prb_two 5 ev_austin = (prb_two\<lparr>msgsRcvd := 1, msgsActn := 1\<rparr>, [c])"
    using e s(1) c(1) by (simp add: prb_two_def)
  with a matches_wx c(2) show ?thesis by blast
qed

theorem failed_call_counted_witness:
  "is_2xx ''204 No Content'' \<and> \<not> is_2xx ''404 Not Found''
   \<and> (\<exists>prb' c. HandleEvent prb_two 5 ev_austin = (prb', [c])
         \<and> msgsRcvd prb' = 1 \<and> msgsActn prb' = 1 \<and> feedback prb' = []
         \<and> run_submit (world_status ''404 Not Found'') 6 c = Inr [])"
proof -
  have a: "patterns prb_two = [HelperPattern] @ Configured p_wx # [Configured p_wx]"
    by (simp add: prb_two_def)
  have b: "\<forall>q\<in>set [HelperPattern]. \<not> matches_meta q ev_austin"
    using no_help by simp
  have n: "NewRequest_ok (world_status ''404 Not Found'') (method_p p_wx) (url_p p_wx)"
    by (simp add: world_status_def)
  have x: "\<not> is_2xx ''404 Not Found''" by (simp add: is_2xx_def)
  have y: "is_2xx ''204 No Content''" by (simp add: is_2xx_def is_digit_def)
  have d: "Do (world_status ''404 Not Found'') (submitted_request p_wx ev_austin) = None
           \<or> (\<exists>resp. Do (world_status ''404 Not Found'') (submitted_request p_wx ev_austin) = Some resp
                 \<and> \<not> is_2xx (Status resp))"
    using x by (simp add: world_status_def)
  from failed_call_counted [OF a b matches_wx n d, of 5 6] x y show ?thesis
    by (simp add: prb_two_def)
qed

theorem feedback_on_200_witness:
  "(\<exists>e. Submit (world_status ''200 OK'') 6 p_wx ev_austin ''bob'' ''austin'' Map.empty = Inr [e]
      \<and> Text e = ''ok'' \<and> ContentBlocks e = []
      \<and> ReplyBroker e = Some 1 \<and> ReplyTarget e = ''D42'')
   \<and> Submit (world_status ''204 No Content'') 6 p_wx ev_austin ''bob'' ''austin'' Map.empty = Inr []"
proof -
  let ?w = "world_status ''200 OK''"
  let ?v = "world_status ''204 No Content''"
  have 1: "NewRequest_ok ?w (method_p p_wx) (url_p p_wx)" by (simp add: world_status_def)
  have 2: \<open>Do ?w (request_of p_wx (payload_of p_wx ''bob'' ''austin'' Map.empty))
             = Some \<lparr>Status = ''200 OK'', Body = ''{"text":"ok","blocks":[]}''\<rparr>\<close>
    by (simp add: world_status_def)
  have 3: \<open>HasPrefix (Status \<lparr>Status = ''200 OK'', Body = ''{"text":"ok","blocks":[]}''\<rparr>) ''200''
           \<and> Body \<lparr>Status = ''200 OK'', Body = ''{"text":"ok","blocks":[]}''\<rparr>
               = ''{"text":"ok","blocks":[]}''
           \<and> Unmarshal ?w (Body \<lparr>Status = ''200 OK'', Body = ''{"text":"ok","blocks":[]}''\<rparr>)
               = Some \<lparr>Text_jr = ''ok'', Blocks = []\<rparr>\<close>
    by (simp add: world_status_def HasPrefix_def)
  have 4: "NewRequest_ok ?v (method_p p_wx) (url_p p_wx)" by (simp add: world_status_def)
  have 5: \<open>Do ?v (request_of p_wx (payload_of p_wx ''bob'' ''austin'' Map.empty))
             = Some \<lparr>Status = ''204 No Content'', Body = ''{"text":"ok","blocks":[]}''\<rparr>\<close>
    by (simp add: world_status_def)
  have 6: \<open>\<not> HasPrefix (Status \<lparr>Status = ''204 No Content'',
                                    Body = ''{"text":"ok","blocks":[]}''\<rparr>) ''200''\<close>
    by (simp add: HasPrefix_def)
  from feedback_on_200 [OF 1 2, of 6 ev_austin] 3
  have a: "\<exists>e. Submit ?w 6 p_wx ev_austin ''bob'' ''austin'' Map.empty = Inr [e]
             \<and> Text e = ''ok'' \<and> ContentBlocks e = []
             \<and> ReplyBroker e = ReplyBroker ev_austin \<and> ReplyTarget e = ReplyTarget ev_austin"
    by blast
  from feedback_on_200 [OF 4 5, of 6 ev_austin] 6
  have b: "Submit ?v 6 p_wx ev_austin ''bob'' ''austin'' Map.empty = Inr []"
    by blast
  from a b show ?thesis by (simp add: ev_austin_def)
qed


text \<open>
  The claim as stated, for every 2xx status, fails: with the status \<open>201 Created\<close> and
  the same body, \<open>Submit\<close> sends nothing.
\<close>

theorem feedback_on_201_counterexample:
  \<open>is_2xx ''201 Created''
   \<and> Do (world_status ''201 Created'') (submitted_request p_wx ev_austin)
       = Some \<lparr>Status = ''201 Created'', Body = ''{"text":"ok","blocks":[]}''\<rparr>
   \<and> Submit (world_status ''201 Created'') 6 p_wx ev_austin (Actor ev_austin) (Text ev_austin)
        (snd (ExtractMatches p_wx (Text ev_austin))) = Inr []\<close>
  by (simp add: world_status_def is_2xx_def is_digit_def Submit_def HasPrefix_def)

theorem NewExtendedPattern_drops_vars_witness:
  "\<exists>p. NewExtendedPattern plain_unicode (\<lambda>reg. Inr re_city) ''wx'' ''(?s)(?P<city>.*)''
          ''https://example.com/weather'' Map.empty [''units'' \<mapsto> ''metric''] ''POST'' '''' = Inr p
      \<and> matches_meta (Configured p) ev_austin
      \<and> dom (payload_of p (Actor ev_austin) (Text ev_austin) (snd (ExtractMatches p (Text ev_austin))))
          = {''actor'', ''text'', ''city''}"
proof -
  have c: "NewExtendedPattern plain_unicode (\<lambda>reg. Inr re_city) ''wx'' ''(?s)(?P<city>.*)''
          ''https://example.com/weather'' Map.empty [''units'' \<mapsto> ''metric''] ''POST'' '''' = Inr p_wx"
    by (simp add: NewExtendedPattern_def ToUpper_def upper_byte_def is_ascii_def p_wx_def)
  have n: "dom (snd (ExtractMatches p_wx (Text ev_austin))) = {''city''}"
    by (simp add: ExtractMatches_def FindStringSubmatch_def SubexpNames_def p_wx_def re_city_def
          ev_austin_def Let_def)
  from NewExtendedPattern_drops_vars [OF c, of "Actor ev_austin" "Text ev_austin"
      "snd (ExtractMatches p_wx (Text ev_austin))"] n c matches_wx
  show ?thesis by auto
qed

text \<open>When the constructor fails, as the code has it.\<close>

lemma NewExtendedPattern_fails_iff:
  "isl (NewExtendedPattern uc Compile name reg url headers vars method help) \<longleftrightarrow>
     (length url < 10 \<and> \<not> HasPrefix ''http'' (ToLower uc url))
     \<or> isl (Compile reg)
     \<or> \<not> (ToUpper uc method = ''GET'' \<or> ToUpper uc method = ''POST'')"
  by (auto simp: NewExtendedPattern_def Let_def split: sum.splits)


section \<open>Properties of the text functions\<close>

lemma slice_middle:
  "slice (pre @ x @ post) (length pre) (length pre + length x) = Inr x"
  by (simp add: slice_def)

lemma Split_not_Nil: "Split s sep \<noteq> []"
  by (induction s) (auto split: list.splits)


lemma replace_from_skip:
  "c0 \<notin> set pre \<Longrightarrow>
     replace_from (c0 # old') new (pre @ t) = pre @ replace_from (c0 # old') new t"
  by (induction pre) (auto simp: HasPrefix_def)

lemma replace_from_hit:
  "replace_from (c0 # old') new ((c0 # old') @ t) = new @ replace_from (c0 # old') new t"
  by (simp add: HasPrefix_def)

lemma replace_from_none:
  "c0 \<notin> set s \<Longrightarrow> replace_from (c0 # old') new s = s"
  using replace_from_skip [of c0 s old' new "[]"] by simp

lemma ReplaceAll_once:
  assumes "c0 \<notin> set pre" and "c0 \<notin> set post"
  shows "ReplaceAll (pre @ (c0 # old') @ post) (c0 # old') new = pre @ new @ post"
proof -
  have "replace_from (c0 # old') new (pre @ (c0 # old') @ post)
          = pre @ replace_from (c0 # old') new ((c0 # old') @ post)"
    using assms(1) by (rule replace_from_skip)
  also have "\<dots> = pre @ new @ replace_from (c0 # old') new post"
    by (simp only: replace_from_hit)
  also have "\<dots> = pre @ new @ post"
    using assms(2) by (simp add: replace_from_none)
  finally show ?thesis by (simp add: ReplaceAll_def)
qed

lemma find_all_skip:
  assumes "\<And>c cs. c0 \<noteq> c \<Longrightarrow> m (c # cs) = None"
    and "c0 \<notin> set pre"
  shows "find_all m i (pre @ t) = find_all m (i + length pre) t"
  using assms(2) by (induction pre arbitrary: i) (simp_all add: assms(1))

lemma find_all_none:
  assumes "\<And>c cs. c0 \<noteq> c \<Longrightarrow> m (c # cs) = None"
    and "c0 \<notin> set s"
  shows "find_all m i s = []"
  using find_all_skip [of c0 m s i "[]", OF assms] by simp

lemma find_all_single:
  assumes "\<And>c cs. c0 \<noteq> c \<Longrightarrow> m (c # cs) = None"
    and "c0 \<notin> set pre" and "c0 \<notin> set post"
    and "m (x @ post) = Some (length x)" and "x \<noteq> []"
  shows "find_all m 0 (pre @ x @ post) = [(length pre, length pre + length x)]"
proof -
  from assms(5) obtain c cs where x: "x = c # cs" by (cases x) auto
  have "find_all m 0 (pre @ x @ post) = find_all m (length pre) (x @ post)"
    using find_all_skip [of c0 m pre 0 "x @ post", OF assms(1) assms(2)] by simp
  also have "\<dots> = (length pre, length pre + length x) # find_all m (length pre + length x) post"
    using assms(4) by (simp add: x)
  also have "find_all m (length pre + length x) post = []"
    using assms(1) assms(3) by (rule find_all_none)
  finally show ?thesis .
qed

subsection \<open>Links\<close>










section \<open>ReplyBroker\<close>

lemma handle_loop_msgsRcvd:
  "msgsRcvd (fst (handle_loop prb now ev ps)) = msgsRcvd prb"
proof (induction ps arbitrary: prb)
  case Nil
  show ?case by simp
next
  case (Cons ptn rest)
  obtain fired sent started where h: "Handle_meta prb now ptn ev = (fired, sent, started)"
    by (cases "Handle_meta prb now ptn ev") auto
  show ?case
  proof (cases fired)
    case True
    with h show ?thesis by simp
  next
    case False
    with h Cons.IH [of "prb\<lparr>feedback := feedback prb @ sent\<rparr>"] show ?thesis
      by (auto simp: Let_def split: prod.splits)
  qed
qed

lemma HandleEvent_received:
  "msgsRcvd (fst (HandleEvent prb now ev)) = msgsRcvd prb + 1"
  by (simp add: HandleEvent_def handle_loop_msgsRcvd)

lemma HandleEvent_actioned:
  assumes "\<exists>q\<in>set (patterns prb). matches_meta q ev"
  shows "msgsActn (fst (HandleEvent prb now ev)) = msgsActn prb + 1"
proof -
  from split_list_first_prop [OF assms] obtain before ptn after where
    p: "patterns prb = before @ ptn # after" and m: "matches_meta ptn ev"
    and b: "\<forall>q\<in>set before. \<not> matches_meta q ev"
    by blast
  from m obtain sent started where h: "Handle_meta prb now ptn ev = (True, sent, started)"
    using Handle_meta_acts by blast
  show ?thesis
    by (simp add: HandleEvent_first_match [OF p b h])
qed

lemma Submit_reply_fields:
  assumes "Submit w now p originEvt actor text named = Inr es" and "e \<in> set es"
  shows "ReplyBroker e = ReplyBroker originEvt \<and> ReplyTarget e = ReplyTarget originEvt"
  using assms
  by (auto simp: Submit_def Let_def split: if_splits option.splits)

lemma Handle_meta_reply_fields:
  assumes "Handle_meta prb now ptn ev = (fired, sent, started)"
  shows "(\<forall>e\<in>set sent. ReplyBroker e = ReplyBroker ev \<and> ReplyTarget e = ReplyTarget ev)
         \<and> (\<forall>c\<in>set started. sc_originEvt c = ev)"
  using assms
  by (cases ptn)
     (auto simp: Handle_meta_def Handle_helper_def Handle_def Let_def
        split: if_splits prod.splits)

text \<open>
  Claim C9, amended.  The Slack broker ignores an event whose \<open>ReplyBroker\<close> is another
  broker: \<open>HandleEvent\<close> returns with the broker as it was and no message posted.  The
  pattern router has no such test.  Whatever \<open>ReplyBroker\<close> is, it counts the event as
  received, and when the text matches a pattern it dispatches the first matching pattern:
  that pattern's \<open>Handle\<close> returns true, the event is counted as actioned, and the one
  action taken is a help event sent on the feedback channel or a \<open>Submit\<close> started.  The
  help event, and every event the started \<open>Submit\<close> sends, carry the \<open>ReplyBroker\<close> and
  the \<open>ReplyTarget\<close> of the event.
\<close>

theorem ReplyBroker_guard:
  "(ReplyBroker ev = Some b \<and> b \<noteq> self_sb sb \<longrightarrow> HandleEvent_sb uc sb ev = Inr (sb, []))
   \<and> msgsRcvd (fst (HandleEvent prb now ev)) = msgsRcvd prb + 1
   \<and> (patterns prb = before @ ptn # after \<and> (\<forall>q\<in>set before. \<not> matches_meta q ev)
        \<and> matches_meta ptn ev
      \<longrightarrow> (\<exists>sent started.
             Handle_meta prb now ptn ev = (True, sent, started)
             \<and> length sent + length started = 1
             \<and> HandleEvent prb now ev =
                 (prb\<lparr>msgsRcvd := msgsRcvd prb + 1, feedback := feedback prb @ sent,
                       msgsActn := msgsActn prb + 1\<rparr>, started)
             \<and> (\<forall>e\<in>set sent. ReplyBroker e = ReplyBroker ev \<and> ReplyTarget e = ReplyTarget ev)
             \<and> (\<forall>c\<in>set started. \<forall>w now' es. run_submit w now' c = Inr es
                   \<longrightarrow> (\<forall>e\<in>set es. ReplyBroker e = ReplyBroker ev
                                      \<and> ReplyTarget e = ReplyTarget ev))))"
proof -
  have slack: "HandleEvent_sb uc sb ev = Inr (sb, [])"
    if "ReplyBroker ev = Some b" "b \<noteq> self_sb sb"
    using that by (auto simp: HandleEvent_sb_def)
  have router: "\<exists>sent started.
             Handle_meta prb now ptn ev = (True, sent, started)
             \<and> length sent + length started = 1
             \<and> HandleEvent prb now ev =
                 (prb\<lparr>msgsRcvd := msgsRcvd prb + 1, feedback := feedback prb @ sent,
                       msgsActn := msgsActn prb + 1\<rparr>, started)
             \<and> (\<forall>e\<in>set sent. ReplyBroker e = ReplyBroker ev \<and> ReplyTarget e = ReplyTarget ev)
             \<and> (\<forall>c\<in>set started. \<forall>w now' es. run_submit w now' c = Inr es
                   \<longrightarrow> (\<forall>e\<in>set es. ReplyBroker e = ReplyBroker ev
                                      \<and> ReplyTarget e = ReplyTarget ev))"
    if p: "patterns prb = before @ ptn # after"
      and q: "\<forall>q\<in>set before. \<not> matches_meta q ev"
      and m: "matches_meta ptn ev"
  proof -
    from m obtain sent started where
      h: "Handle_meta prb now ptn ev = (True, sent, started)"
      and n: "length sent + length started = 1"
      using Handle_meta_acts by blast
    note e = HandleEvent_first_match [OF p q h]
    from Handle_meta_reply_fields [OF h] have
      f: "\<forall>e\<in>set sent. ReplyBroker e = ReplyBroker ev \<and> ReplyTarget e = ReplyTarget ev"
      and o: "\<forall>c\<in>set started. sc_originEvt c = ev"
      by blast+
    have g: "ReplyBroker e = ReplyBroker ev \<and> ReplyTarget e = ReplyTarget ev"
      if "c \<in> set started" "run_submit w now' c = Inr es" "e \<in> set es" for c w now' es e
      using Submit_reply_fields [of w now' "sc_pattern c" "sc_originEvt c" "sc_actor c"
          "sc_text c" "sc_named c" es e] that o
      by (simp add: run_submit_def)
    from h n e f g show ?thesis by blast
  qed
  from slack HandleEvent_received router show ?thesis by blast
qed

theorem ReplyBroker_guard_witness:
  "HandleEvent_sb plain_unicode sb_one (ev_austin\<lparr>ReplyBroker := Some 2\<rparr>) = Inr (sb_one, [])
   \<and> ReplyBroker ev_austin = Some 1 \<and> self_prb prb_two = 2
   \<and> (\<exists>c e. HandleEvent prb_two 5 ev_austin = (prb_two\<lparr>msgsRcvd := 1, msgsActn := 1\<rparr>, [c])
          \<and> run_submit (world_status ''200 OK'') 6 c = Inr [e]
          \<and> ReplyBroker e = Some 1 \<and> ReplyTarget e = ''D42'')"
proof -
  let ?ev2 = "ev_austin\<lparr>ReplyBroker := Some 2\<rparr>"
  have 1: "ReplyBroker ?ev2 = Some 2 \<and> 2 \<noteq> self_sb sb_one"
    by (simp add: sb_one_def)
  have 2: "patterns prb_two = [HelperPattern] @ Configured p_wx # [Configured p_wx]
           \<and> (\<forall>q\<in>set [HelperPattern]. \<not> matches_meta q ev_austin)
           \<and> matches_meta (Configured p_wx) ev_austin"
    using no_help matches_wx by (simp add: prb_two_def)
  from ReplyBroker_guard [where ev = ?ev2 and b = 2 and sb = sb_one and uc = plain_unicode] 1
  have a: "HandleEvent_sb plain_unicode sb_one ?ev2 = Inr (sb_one, [])"
    by blast
  from ReplyBroker_guard [where ev = ev_austin and prb = prb_two and now = 5
      and before = "[HelperPattern]" and ptn = "Configured p_wx" and after = "[Configured p_wx]"] 2
  obtain sent started where
    h: "Handle_meta prb_two 5 (Configured p_wx) ev_austin = (True, sent, started)"
    and e: "HandleEvent prb_two 5 ev_austin =
              (prb_two\<lparr>msgsRcvd := msgsRcvd prb_two + 1, feedback := feedback prb_two @ sent,
                     msgsActn := msgsActn prb_two + 1\<rparr>, started)"
    and r: "\<forall>c\<in>set started. \<forall>w now' es. run_submit w now' c = Inr es
               \<longrightarrow> (\<forall>e\<in>set es. ReplyBroker e = ReplyBroker ev_austin
                                  \<and> ReplyTarget e = ReplyTarget ev_austin)"
    by blast
  let ?c = "\<lparr>sc_pattern = p_wx, sc_originEvt = ev_austin, sc_actor = Actor ev_austin,
             sc_text = Text ev_austin, sc_named = snd (ExtractMatches p_wx (Text ev_austin))\<rparr>"
  from h have s: "sent = []" "started = [?c]"
    using matches_wx by (auto simp: Handle_Configured)
  obtain e' where x: "run_submit (world_status ''200 OK'') 6 ?c = Inr [e']"
    by (simp add: run_submit_def Submit_def world_status_def p_wx_def HasPrefix_def)
  from r s(2) x have y: "ReplyBroker e' = ReplyBroker ev_austin \<and> ReplyTarget e' = ReplyTarget ev_austin"
    by auto
  have z: "HandleEvent prb_two 5 ev_austin = (prb_two\<lparr>msgsRcvd := 1, msgsActn := 1\<rparr>, [?c])"
    using e s by (simp add: prb_two_def)
  have k: "ReplyBroker ev_austin = Some 1 \<and> ReplyTarget ev_austin = ''D42''
           \<and> self_prb prb_two = 2"
    by (simp add: ev_austin_def prb_two_def)
  from a z x y k show ?thesis by auto
qed


text \<open>
  The claim as stated fails for the router: the event of the example names broker 1 in
  \<open>ReplyBroker\<close>, the router is broker 2, and the router starts a \<open>Submit\<close> for it and
  counts it.
\<close>

theorem router_acts_counterexample:
  "ReplyBroker ev_austin = Some 1 \<and> self_prb prb_two = 2
   \<and> HandleEvent prb_two 5 ev_austin =
       (prb_two\<lparr>msgsRcvd := 1, msgsActn := 1\<rparr>,
        [\<lparr>sc_pattern = p_wx, sc_originEvt = ev_austin, sc_actor = Actor ev_austin,
          sc_text = Text ev_austin, sc_named = snd (ExtractMatches p_wx (Text ev_austin))\<rparr>])"
proof -
  have a: "patterns prb_two = [HelperPattern] @ Configured p_wx # [Configured p_wx]"
    by (simp add: prb_two_def)
  have b: "\<forall>q\<in>set [HelperPattern]. \<not> matches_meta q ev_austin"
    using no_help by simp
  show ?thesis
    using HandleEvent_first_match [OF a b Handle_Configured [OF matches_wx], of 5]
    by (simp add: prb_two_def ev_austin_def)
qed

section \<open>Mentions\<close>

lemma match_uids_start: "CHR ''<'' \<noteq> c \<Longrightarrow> match_uids (c # cs) = None"
  by (auto simp: match_uids_def HasPrefix_def)

lemma match_atusers_start: "CHR ''@'' \<noteq> c \<Longrightarrow> match_atusers (c # cs) = None"
  by (auto simp: match_atusers_def HasPrefix_def)

lemma not_wordbar_gt: "\<not> is_wordbar (CHR ''>'')"
  by (simp add: is_wordbar_def is_word_def)

lemma match_uids_ref:
  assumes "run \<noteq> []" and "\<forall>c\<in>set run. is_wordbar c"
  shows "match_uids ((''<@'' @ (CHR ''U'' # run) @ ''>'') @ post)
           = Some (length (''<@'' @ (CHR ''U'' # run) @ ''>''))"
proof -
  let ?s = "(''<@'' @ (CHR ''U'' # run) @ ''>'') @ post"
  have tw: "takeWhile is_wordbar (run @ CHR ''>'' # post) = run"
    using assms(2) by (simp add: takeWhile_tail not_wordbar_gt)
  have d3: "drop 3 ?s = run @ CHR ''>'' # post"
    by simp
  have "drop (3 + length run) ?s = drop (length run + 3) ?s"
    by (simp only: add.commute)
  also have "\<dots> = drop (length run) (drop 3 ?s)"
    by (simp only: drop_drop)
  also have "\<dots> = CHR ''>'' # post"
    by (simp only: d3) simp
  finally have d: "drop (3 + length run) ?s = CHR ''>'' # post" .
  have p: "HasPrefix ?s ''<@U''"
    by (simp add: HasPrefix_def)
  show ?thesis
    using assms(1) by (simp only: match_uids_def p d d3 tw Let_def) (simp add: HasPrefix_def)
qed

lemma find_uids_plain: "CHR ''<'' \<notin> set s \<Longrightarrow> find_uids s = []"
  using find_all_none [of "CHR ''<''" match_uids s 0, OF match_uids_start]
  by (simp add: find_uids_def)

lemma find_atusers_plain: "CHR ''@'' \<notin> set s \<Longrightarrow> find_atusers s = []"
  using find_all_none [of "CHR ''@''" match_atusers s 0, OF match_atusers_start]
  by (simp add: find_atusers_def)

lemma find_uids_ref:
  assumes "run \<noteq> []" and "\<forall>c\<in>set run. is_wordbar c"
    and "CHR ''<'' \<notin> set pre" and "CHR ''<'' \<notin> set post"
  shows "find_uids (pre @ ''<@'' @ (CHR ''U'' # run) @ ''>'' @ post)
           = [(length pre, length pre + length run + 4, length pre + 2, length pre + length run + 3)]"
proof -
  let ?x = "''<@'' @ (CHR ''U'' # run) @ ''>''"
  have m: "match_uids (?x @ post) = Some (length ?x)"
    using assms(1,2) by (rule match_uids_ref)
  have "find_all match_uids 0 (pre @ ?x @ post) = [(length pre, length pre + length ?x)]"
    by (rule find_all_single [OF match_uids_start assms(3) assms(4) m]) simp_all
  then show ?thesis by (simp add: find_uids_def)
qed

lemma UserNick_cached:
  "userInIdCache suc key = Some u \<Longrightarrow> UserNick uc api suc key cacheOnly = Inr (Nick u, suc)"
  by (simp add: UserNick_def)

lemma lookup_ref_key:
  assumes "userInIdCache suc (ref_key uid) = Some u"
  shows "(if Contains uid (CHR ''|'')
          then (case Split uid (CHR ''|'') of
                  [] \<Rightarrow> Inr ('''', suc)
                | part0 # _ \<Rightarrow> UserNick uc api suc part0 cacheOnly)
          else UserNick uc api suc uid cacheOnly) = Inr (Nick u, suc)"
proof (cases "Contains uid (CHR ''|'')")
  case True
  obtain part0 parts where s: "Split uid (CHR ''|'') = part0 # parts"
    using Split_not_Nil [of uid "CHR ''|''"] by (cases "Split uid (CHR ''|'')") auto
  from assms True s have "userInIdCache suc part0 = Some u"
    by (simp add: ref_key_def)
  then show ?thesis using True s by (simp add: UserNick_cached)
next
  case False
  with assms show ?thesis by (simp add: ref_key_def UserNick_cached)
qed

lemma range_order_Nil: "\<forall>xs. mset (range_order xs) = mset xs \<Longrightarrow> range_order [] = []"
  by (metis mset_zero_iff)

lemma range_order_single:
  assumes "\<forall>xs. mset (range_order xs) = mset xs"
  shows "range_order [x] = [x]"
proof -
  from assms have "mset (range_order [x]) = {#x#}" by simp
  then show ?thesis by (simp add: mset_single_iff_right)
qed

lemma ConvertRefsToUsers_plain:
  assumes "\<forall>xs. mset (range_order xs) = mset xs" and "CHR ''<'' \<notin> set s"
  shows "ConvertRefsToUsers uc range_order api suc s cacheOnly = Inr (s, suc)"
  using assms(2) by (simp add: ConvertRefsToUsers_def find_uids_plain range_order_Nil [OF assms(1)])

lemma ConvertRefsToUsers_ref:
  assumes "\<forall>xs. mset (range_order xs) = mset xs"
    and "run \<noteq> []" and "\<forall>c\<in>set run. is_wordbar c"
    and "userInIdCache suc (ref_key (CHR ''U'' # run)) = Some u"
    and "CHR ''<'' \<notin> set pre" and "CHR ''<'' \<notin> set post"
  shows "ConvertRefsToUsers uc range_order api suc (pre @ ''<@'' @ (CHR ''U'' # run) @ ''>'' @ post) cacheOnly
           = Inr (pre @ Nick u @ post, suc)"
proof -
  let ?uid = "CHR ''U'' # run"
  let ?s = "pre @ ''<@'' @ ?uid @ ''>'' @ post"
  have f: "find_uids ?s
             = [(length pre, length pre + length run + 4, length pre + 2, length pre + length run + 3)]"
    using assms(2,3,5,6) by (rule find_uids_ref)
  have sl: "slice ?s (length pre + 2) (length pre + length run + 3) = Inr ?uid"
    using slice_middle [of "pre @ ''<@''" ?uid "''>'' @ post"]
    by (simp add: numeral_3_eq_3)
  have l: "refs_loop uc api cacheOnly ?s
             [(length pre, length pre + length run + 4, length pre + 2, length pre + length run + 3)]
             suc [] = Inr ([(?uid, Nick u)], suc)"
    by (simp only: refs_loop.simps sl sum.case lookup_ref_key [OF assms(4)] prod.case) simp
  have r: "ReplaceAll ?s (''<@'' @ ?uid @ ''>'') (Nick u) = pre @ Nick u @ post"
    using ReplaceAll_once [OF assms(5) assms(6), of "''@'' @ ?uid @ ''>''" "Nick u"] by simp
  show ?thesis
    by (simp only: ConvertRefsToUsers_def f rev.simps append_Nil l sum.case prod.case
          range_order_single [OF assms(1)] replace_refs.simps r)
qed

lemma ConvertUsersToRefs_plain:
  assumes "match_usernick s = None" and "CHR ''@'' \<notin> set s"
  shows "ConvertUsersToRefs uc api suc s cacheOnly = Inr (s, suc)"
  using assms by (simp add: ConvertUsersToRefs_def find_usernick_def find_atusers_plain)

text \<open>
  Claim C6, amended.  Take a text with one mention \<open><@uid>\<close>, \<open>uid\<close> being \<open>U\<close> and
  word characters or \<open>|\<close>, whose id is in the cache, with nick \<open>n\<close>; let the text
  around the mention and the nick have no \<open><\<close> and no \<open>@\<close>, and let the translated
  text not begin with a word followed by \<open>:\<close>.  Then the inbound translation replaces
  the mention by the nick, the outbound translation leaves that text as it is, and so does
  a second inbound translation; the cache is not changed, and the Slack client is not
  called, in either mode.
\<close>

theorem mention_round_trip:
  assumes "\<forall>xs. mset (range_order xs) = mset xs"
    and "uid = CHR ''U'' # run" and "run \<noteq> []" and "\<forall>c\<in>set run. is_wordbar c"
    and "userInIdCache suc (ref_key uid) = Some u"
    and "CHR ''<'' \<notin> set (pre @ Nick u @ post)"
    and "CHR ''@'' \<notin> set (pre @ Nick u @ post)"
    and "match_usernick (pre @ Nick u @ post) = None"
  shows "ConvertRefsToUsers uc range_order api suc (pre @ ''<@'' @ uid @ ''>'' @ post) c1
           = Inr (pre @ Nick u @ post, suc)
         \<and> ConvertUsersToRefs uc api suc (pre @ Nick u @ post) c2 = Inr (pre @ Nick u @ post, suc)
         \<and> ConvertRefsToUsers uc range_order api suc (pre @ Nick u @ post) c3
           = Inr (pre @ Nick u @ post, suc)"
proof -
  from assms(6) have lt: "CHR ''<'' \<notin> set pre" "CHR ''<'' \<notin> set post" by simp_all
  have 1: "ConvertRefsToUsers uc range_order api suc (pre @ ''<@'' @ uid @ ''>'' @ post) c1
           = Inr (pre @ Nick u @ post, suc)"
    unfolding assms(2)
    using assms(1) assms(3) assms(4) assms(5) [unfolded assms(2)] lt
    by (rule ConvertRefsToUsers_ref)
  have 2: "ConvertUsersToRefs uc api suc (pre @ Nick u @ post) c2 = Inr (pre @ Nick u @ post, suc)"
    using assms(8) assms(7) by (rule ConvertUsersToRefs_plain)
  have 3: "ConvertRefsToUsers uc range_order api suc (pre @ Nick u @ post) c3
           = Inr (pre @ Nick u @ post, suc)"
    using assms(1) assms(6) by (rule ConvertRefsToUsers_plain)
  from 1 2 3 show ?thesis by blast
qed

theorem mention_round_trip_witness:
  "ConvertRefsToUsers plain_unicode (\<lambda>xs. xs) None cache_bob (''hi '' @ ''<@'' @ ''U12345'' @ ''>'' @ '': lunch?'') True
     = Inr (''hi bob: lunch?'', cache_bob)
   \<and> ConvertUsersToRefs plain_unicode None cache_bob ''hi bob: lunch?'' True = Inr (''hi bob: lunch?'', cache_bob)
   \<and> ConvertRefsToUsers plain_unicode (\<lambda>xs. xs) None cache_bob ''hi bob: lunch?'' True
     = Inr (''hi bob: lunch?'', cache_bob)"
proof -
  let ?u = "\<lparr>Id = ''U12345'', Nick = ''bob'', Avatar = ''''\<rparr>"
  have 1: "\<forall>xs :: (string \<times> string) list. mset ((\<lambda>xs. xs) xs) = mset xs" by simp
  have 2: "''U12345'' = CHR ''U'' # ''12345''" by simp
  have 3: "''12345'' \<noteq> []" by simp
  have 4: "\<forall>c\<in>set ''12345''. is_wordbar c" by (simp add: is_wordbar_def is_word_def)
  have 5: "userInIdCache cache_bob (ref_key ''U12345'') = Some ?u"
    by (simp add: userInIdCache_def index_get_def cache_bob_def ref_key_def Contains_def)
  have 6: "CHR ''<'' \<notin> set (''hi '' @ Nick ?u @ '': lunch?'')" by simp
  have 7: "CHR ''@'' \<notin> set (''hi '' @ Nick ?u @ '': lunch?'')" by simp
  have 8: "match_usernick (''hi '' @ Nick ?u @ '': lunch?'') = None"
    by (simp add: match_usernick_def is_word_def HasPrefix_def)
  from mention_round_trip [OF 1 2 3 4 5 6 7 8, where api = None and ?c1.0 = True
      and ?c2.0 = True and ?c3.0 = True and uc = plain_unicode]
  show ?thesis by simp
qed

text \<open>
  The claim as stated fails where the mention follows an \<open>@\<close>: inbound gives \<open>@bob\<close>,
  outbound turns that into the mention \<open><@U12345>\<close>, and the second inbound gives
  \<open>bob\<close>.
\<close>

theorem mention_round_trip_counterexample:
  "ConvertRefsToUsers plain_unicode (\<lambda>xs. xs) None cache_bob ''@<@U12345>'' True = Inr (''@bob'', cache_bob)
   \<and> ConvertUsersToRefs plain_unicode None cache_bob ''@bob'' True = Inr (''<@U12345>'', cache_bob)
   \<and> ConvertRefsToUsers plain_unicode (\<lambda>xs. xs) None cache_bob ''<@U12345>'' True = Inr (''bob'', cache_bob)
   \<and> ''bob'' \<noteq> ''@bob''"
proof -
  have f1: "find_uids ''@<@U12345>'' = [(1, 10, 3, 9)]" by code_simp
  have f2: "find_uids ''<@U12345>'' = [(0, 9, 2, 8)]" by code_simp
  have f3: "find_usernick ''@bob'' = []" by code_simp
  have f4: "find_atusers ''@bob'' = [(0, 4, 1, 4)]" by code_simp
  have s1: "slice ''@<@U12345>'' 3 9 = Inr ''U12345''" by code_simp
  have s2: "slice ''<@U12345>'' 2 8 = Inr ''U12345''" by code_simp
  have s3: "slice ''@bob'' (Suc 0) 4 = Inr ''bob''" by code_simp
  have r1: "ReplaceAll ''@<@U12345>'' ''<@U12345>'' ''bob'' = ''@bob''" by code_simp
  have r2: "ReplaceAll ''<@U12345>'' ''<@U12345>'' ''bob'' = ''bob''" by code_simp
  have r3: "ReplaceAll ''@bob'' ''@bob'' ''<@U12345>'' = ''<@U12345>''" by code_simp
  have n: "UserNick plain_unicode None cache_bob ''U12345'' True = Inr (''bob'', cache_bob)"
    by (simp add: UserNick_def userInIdCache_def index_get_def cache_bob_def)
  have i: "UserId plain_unicode None cache_bob ''bob'' True = Inr (''U12345'', cache_bob)"
    by (simp add: UserId_def userInNickCache_def index_get_def cache_bob_def ToLower_def
          lower_byte_def is_ascii_def)
  have c: "\<not> Contains ''U12345'' (CHR ''|'')" by (simp add: Contains_def)
  have a: "ConvertRefsToUsers plain_unicode (\<lambda>xs. xs) None cache_bob ''@<@U12345>'' True = Inr (''@bob'', cache_bob)"
    by (simp add: ConvertRefsToUsers_def f1 s1 c n r1)
  have b: "ConvertUsersToRefs plain_unicode None cache_bob ''@bob'' True = Inr (''<@U12345>'', cache_bob)"
    by (simp add: ConvertUsersToRefs_def f3 f4 s3 i r3)
  have d: "ConvertRefsToUsers plain_unicode (\<lambda>xs. xs) None cache_bob ''<@U12345>'' True = Inr (''bob'', cache_bob)"
    by (simp add: ConvertRefsToUsers_def f2 s2 c n r2)
  from a b d show ?thesis by simp
qed


section \<open>Properties of UTF-8\<close>

lemma digit_div: "0 \<le> x \<Longrightarrow> x < m \<Longrightarrow> (m * q + x) div m = (q::int)"
  by (simp add: div_pos_pos_trivial)

lemma digit_mod: "0 \<le> x \<Longrightarrow> x < m \<Longrightarrow> (m * q + x) mod m = (x::int)"
  by (simp add: mod_pos_pos_trivial)

lemma split64: "(r::int) = 64 * (r div 64) + r mod 64"
  by simp

lemma div_4096: "(r::int) div 64 div 64 = r div 4096"
  by (simp add: zdiv_zmult2_eq [symmetric])

lemma div_262144: "(r::int) div 4096 div 64 = r div 262144"
  by (simp add: zdiv_zmult2_eq [symmetric])

lemma cont_mod: "0 \<le> x \<Longrightarrow> x < 64 \<Longrightarrow> (0x80 + x) mod 64 = (x::int)"
  using digit_mod [of x 64 2] by simp

lemma lead2_mod: "0 \<le> x \<Longrightarrow> x < 32 \<Longrightarrow> (0xC0 + x) mod 32 = (x::int)"
  using digit_mod [of x 32 6] by simp

lemma lead3_mod: "0 \<le> x \<Longrightarrow> x < 16 \<Longrightarrow> (0xE0 + x) mod 16 = (x::int)"
  using digit_mod [of x 16 14] by simp

lemma lead4_mod: "0 \<le> x \<Longrightarrow> x < 8 \<Longrightarrow> (0xF0 + x) mod 8 = (x::int)"
  using digit_mod [of x 8 30] by simp

lemma of_char_int_range: "0 \<le> (of_char c :: int) \<and> (of_char c :: int) < 256"
proof -
  have "(of_char c :: int) mod 256 = of_char c" by simp
  then show ?thesis
    using pos_mod_sign [of 256 "of_char c :: int"] pos_mod_bound [of 256 "of_char c :: int"]
    by simp
qed

lemma of_char_char_of_int: "0 \<le> b \<Longrightarrow> b < 256 \<Longrightarrow> of_char (char_of (b::int)) = b"
  by (simp add: mod_pos_pos_trivial)

lemma digit_bounds64:
  assumes "r = 64 * q + x" and "0 \<le> x" and "x < 64"
    and "64 * lo \<le> r" and "r < 64 * hi + 64"
  shows "lo \<le> q \<and> q \<le> (hi::int)"
proof -
  have "\<not> q < lo"
  proof
    assume "q < lo"
    then have "q \<le> lo - 1" by simp
    with assms show False by linarith
  qed
  moreover have "\<not> hi < q"
  proof
    assume "hi < q"
    then have "hi + 1 \<le> q" by simp
    with assms show False by linarith
  qed
  ultimately show ?thesis by simp
qed

lemma digit_bounds4096:
  assumes "r = 4096 * q + x" and "0 \<le> x" and "x < 4096"
    and "4096 * lo \<le> r" and "r < 4096 * hi + 4096"
  shows "lo \<le> q \<and> q \<le> (hi::int)"
proof -
  have "\<not> q < lo"
  proof
    assume "q < lo"
    then have "q \<le> lo - 1" by simp
    with assms show False by linarith
  qed
  moreover have "\<not> hi < q"
  proof
    assume "hi < q"
    then have "hi + 1 \<le> q" by simp
    with assms show False by linarith
  qed
  ultimately show ?thesis by simp
qed

lemma digit_bounds262144:
  assumes "r = 262144 * q + x" and "0 \<le> x" and "x < 262144"
    and "262144 * lo \<le> r" and "r < 262144 * hi + 262144"
  shows "lo \<le> q \<and> q \<le> (hi::int)"
proof -
  have "\<not> q < lo"
  proof
    assume "q < lo"
    then have "q \<le> lo - 1" by simp
    with assms show False by linarith
  qed
  moreover have "\<not> hi < q"
  proof
    assume "hi < q"
    then have "hi + 1 \<le> q" by simp
    with assms show False by linarith
  qed
  ultimately show ?thesis by simp
qed

lemma encode_invalid: "\<not> ValidRune r \<Longrightarrow> encode_rune r = [0xEF, 0xBF, 0xBD]"
  by (auto simp: ValidRune_def encode_rune_def)

lemma decode_encode_1:
  assumes "0 \<le> r" and "r \<le> 0x7F"
  shows "decode_bytes (encode_rune r @ rest) = (r, 1) \<and> length (encode_rune r) = 1
         \<and> (\<forall>b\<in>set (encode_rune r). 0 \<le> b \<and> b < 256)"
  using assms by (simp add: encode_rune_def)

lemma decode_encode_2:
  assumes "0x80 \<le> r" and "r \<le> 0x7FF"
  shows "decode_bytes (encode_rune r @ rest) = (r, 2) \<and> length (encode_rune r) = 2
         \<and> (\<forall>b\<in>set (encode_rune r). 0 \<le> b \<and> b < 256)"
proof -
  define q m where "q = r div 64" and "m = r mod 64"
  have r: "r = 64 * q + m" by (simp add: q_def m_def)
  have m: "0 \<le> m" "m < 64" by (simp_all add: m_def)
  have q: "2 \<le> q \<and> q \<le> 31"
    using r m assms by (intro digit_bounds64 [of r q m]) simp_all
  have e: "encode_rune r = [0xC0 + q, 0x80 + m]"
    using assms by (simp add: encode_rune_def q_def m_def)
  have "decode_bytes ([0xC0 + q, 0x80 + m] @ rest) = (64 * q + m, 2)"
    using q m by (simp add: accept_second_def is_cont_def lead2_mod cont_mod)
  then show ?thesis
    unfolding e using r q m by simp
qed

lemma decode_encode_3:
  assumes "0x800 \<le> r" and "r \<le> 0xFFFF" and "\<not> (0xD800 \<le> r \<and> r \<le> 0xDFFF)"
  shows "decode_bytes (encode_rune r @ rest) = (r, 3) \<and> length (encode_rune r) = 3
         \<and> (\<forall>b\<in>set (encode_rune r). 0 \<le> b \<and> b < 256)"
proof -
  define a b c where "a = r div 4096" and "b = (r div 64) mod 64" and "c = r mod 64"
  have "r = 64 * (r div 64) + c" by (simp add: c_def)
  moreover have "r div 64 = 64 * (r div 64 div 64) + b" by (simp add: b_def)
  ultimately have r: "r = 4096 * a + 64 * b + c"
    by (simp add: div_4096 a_def)
  have bc: "0 \<le> b" "b < 64" "0 \<le> c" "c < 64" by (simp_all add: b_def c_def)
  have a: "0 \<le> a \<and> a \<le> 15"
    using r bc assms(1,2) by (intro digit_bounds4096 [of r a "64 * b + c"]) simp_all
  have a0: "a = 0 \<longrightarrow> 32 \<le> b" using assms(1) r bc by linarith
  have a13: "a = 13 \<longrightarrow> b \<le> 31" using assms(3) r bc by linarith
  have e: "encode_rune r = [0xE0 + a, 0x80 + b, 0x80 + c]"
    using assms by (auto simp: encode_rune_def a_def b_def c_def)
  have "decode_bytes ([0xE0 + a, 0x80 + b, 0x80 + c] @ rest) = (4096 * a + 64 * b + c, 3)"
    using a bc a0 a13 by (auto simp: accept_second_def is_cont_def lead3_mod cont_mod)
  then show ?thesis
    unfolding e using r a bc by simp
qed

lemma decode_encode_4:
  assumes "0x10000 \<le> r" and "r \<le> 0x10FFFF"
  shows "decode_bytes (encode_rune r @ rest) = (r, 4) \<and> length (encode_rune r) = 4
         \<and> (\<forall>b\<in>set (encode_rune r). 0 \<le> b \<and> b < 256)"
proof -
  define a b c d where "a = r div 262144" and "b = (r div 4096) mod 64"
    and "c = (r div 64) mod 64" and "d = r mod 64"
  have "r = 64 * (r div 64) + d" by (simp add: d_def)
  moreover have "r div 64 = 64 * (r div 64 div 64) + c" by (simp add: c_def)
  moreover have "r div 4096 = 64 * (r div 4096 div 64) + b" by (simp add: b_def)
  ultimately have r: "r = 262144 * a + 4096 * b + 64 * c + d"
    by (simp add: div_4096 div_262144 a_def)
  have bcd: "0 \<le> b" "b < 64" "0 \<le> c" "c < 64" "0 \<le> d" "d < 64"
    by (simp_all add: b_def c_def d_def)
  have a: "0 \<le> a \<and> a \<le> 4"
    using r bcd assms by (intro digit_bounds262144 [of r a "4096 * b + 64 * c + d"]) simp_all
  have a0: "a = 0 \<longrightarrow> 16 \<le> b" using assms(1) r bcd by linarith
  have a4: "a = 4 \<longrightarrow> b \<le> 15" using assms(2) r bcd by linarith
  have e: "encode_rune r = [0xF0 + a, 0x80 + b, 0x80 + c, 0x80 + d]"
    using assms by (auto simp: encode_rune_def a_def b_def c_def d_def)
  have "decode_bytes ([0xF0 + a, 0x80 + b, 0x80 + c, 0x80 + d] @ rest)
          = (262144 * a + 4096 * b + 64 * c + d, 4)"
    using a bcd a0 a4 by (auto simp: accept_second_def is_cont_def lead4_mod cont_mod)
  then show ?thesis
    unfolding e using r a bcd by simp
qed

lemma encode_rune_bytes: "\<forall>b\<in>set (encode_rune r). 0 \<le> b \<and> b < 256"
proof (cases "ValidRune r")
  case False
  then show ?thesis by (simp add: encode_invalid)
next
  case True
  then consider "0 \<le> r \<and> r \<le> 0x7F" | "0x80 \<le> r \<and> r \<le> 0x7FF"
    | "0x800 \<le> r \<and> r \<le> 0xFFFF \<and> \<not> (0xD800 \<le> r \<and> r \<le> 0xDFFF)"
    | "0x10000 \<le> r \<and> r \<le> 0x10FFFF"
    unfolding ValidRune_def by linarith
  then show ?thesis
  proof cases
    case 1
    then show ?thesis using decode_encode_1 [of r "[]"] by blast
  next
    case 2
    then show ?thesis using decode_encode_2 [of r "[]"] by blast
  next
    case 3
    then show ?thesis using decode_encode_3 [of r "[]"] by blast
  next
    case 4
    then show ?thesis using decode_encode_4 [of r "[]"] by blast
  qed
qed

lemma length_encode_rune: "1 \<le> length (encode_rune r) \<and> length (encode_rune r) \<le> 4"
  by (simp add: encode_rune_def)

lemma decode_encode:
  "decode_bytes (encode_rune r @ rest)
     = (if ValidRune r then r else RuneError, length (encode_rune r))"
proof (cases "ValidRune r")
  case False
  then show ?thesis
    by (simp add: encode_invalid accept_second_def is_cont_def RuneError_def)
next
  case True
  then consider "0 \<le> r \<and> r \<le> 0x7F" | "0x80 \<le> r \<and> r \<le> 0x7FF"
    | "0x800 \<le> r \<and> r \<le> 0xFFFF \<and> \<not> (0xD800 \<le> r \<and> r \<le> 0xDFFF)"
    | "0x10000 \<le> r \<and> r \<le> 0x10FFFF"
    unfolding ValidRune_def by linarith
  then show ?thesis
  proof cases
    case 1
    with True show ?thesis using decode_encode_1 [of r rest] by simp
  next
    case 2
    with True show ?thesis using decode_encode_2 [of r rest] by simp
  next
    case 3
    with True show ?thesis using decode_encode_3 [of r rest] by simp
  next
    case 4
    with True show ?thesis using decode_encode_4 [of r rest] by simp
  qed
qed

lemma DecodeRuneInString_encode:
  "DecodeRuneInString (map char_of (encode_rune r) @ s)
     = (if ValidRune r then r else RuneError, length (encode_rune r))"
proof -
  let ?bs = "encode_rune r"
  have "map of_char (map char_of ?bs) = ?bs"
    using encode_rune_bytes [of r] by (simp add: map_idI of_char_char_of_int)
  moreover have "take 4 (map char_of ?bs @ s) = map char_of ?bs @ take (4 - length ?bs) s"
    using length_encode_rune [of r] by simp
  ultimately have "map of_char (take 4 (map char_of ?bs @ s))
                     = ?bs @ map of_char (take (4 - length ?bs) s)"
    by simp
  then show ?thesis
    by (simp only: DecodeRuneInString_def decode_encode)
qed

lemma runes_of_encode:
  "runes_of (map char_of (encode_rune r) @ s)
     = (if ValidRune r then r else RuneError) # runes_of s"
proof -
  obtain b0 bs where e: "encode_rune r = b0 # bs"
    using length_encode_rune [of r] by (cases "encode_rune r") auto
  have d: "DecodeRuneInString (char_of b0 # map char_of bs @ s)
             = (if ValidRune r then r else RuneError, Suc (length bs))"
    using DecodeRuneInString_encode [of r s] by (simp add: e)
  show ?thesis
    by (simp add: e d)
qed

lemma string_of_runes_Cons:
  "string_of_runes (r # rs) = map char_of (encode_rune r) @ string_of_runes rs"
  by (simp add: string_of_runes_def)

lemma string_of_runes_append:
  "string_of_runes (xs @ ys) = string_of_runes xs @ string_of_runes ys"
  by (simp add: string_of_runes_def)

lemma runes_of_string_of_runes:
  "runes_of (string_of_runes rs) = map (\<lambda>r. if ValidRune r then r else RuneError) rs"
  by (induction rs) (simp_all add: string_of_runes_Cons runes_of_encode, simp add: string_of_runes_def)

lemma RuneCount_string_of_runes: "RuneCountInString (string_of_runes rs) = length rs"
  by (simp add: RuneCountInString_def runes_of_string_of_runes)

lemma accept_second_cont: "accept_second b0 b1 \<Longrightarrow> is_cont b1"
  by (auto simp: accept_second_def is_cont_def split: if_splits)

lemma encode_decode_2:
  assumes "0xC2 \<le> b0" and "b0 < 0xE0" and "is_cont b1"
  shows "encode_rune ((b0 mod 32) * 64 + b1 mod 64) = [b0, b1]"
proof -
  define x y where "x = b0 - 0xC0" and "y = b1 - 0x80"
  have b: "b0 = 0xC0 + x" "b1 = 0x80 + y" by (simp_all add: x_def y_def)
  have x: "2 \<le> x" "x < 32" using assms(1,2) by (simp_all add: x_def)
  have y: "0 \<le> y" "y < 64" using assms(3) by (simp_all add: y_def is_cont_def)
  have m: "b0 mod 32 = x" "b1 mod 64 = y"
    using x y by (simp_all add: b lead2_mod cont_mod)
  have d: "(64 * x + y) div 64 = x" "(64 * x + y) mod 64 = y"
    using y by (simp_all add: digit_div digit_mod)
  have c: "\<not> 64 * x + y < 0" "\<not> 64 * x + y \<le> 0x7F" "64 * x + y \<le> 0x7FF"
    using x y by linarith+
  have "encode_rune (64 * x + y) = [0xC0 + x, 0x80 + y]"
    by (simp only: encode_rune_def c d if_True if_False)
  then show ?thesis
    unfolding m by (simp add: b mult.commute)
qed

lemma encode_decode_3:
  assumes "0xE0 \<le> b0" and "b0 < 0xF0" and "accept_second b0 b1" and "is_cont b2"
  shows "encode_rune ((b0 mod 16) * 4096 + (b1 mod 64) * 64 + b2 mod 64) = [b0, b1, b2]"
proof -
  define x y z where "x = b0 - 0xE0" and "y = b1 - 0x80" and "z = b2 - 0x80"
  have b: "b0 = 0xE0 + x" "b1 = 0x80 + y" "b2 = 0x80 + z" by (simp_all add: x_def y_def z_def)
  have x: "0 \<le> x" "x < 16" using assms(1,2) by (simp_all add: x_def)
  have y: "0 \<le> y" "y < 64"
    using accept_second_cont [OF assms(3)] by (simp_all add: y_def is_cont_def)
  have z: "0 \<le> z" "z < 64" using assms(4) by (simp_all add: z_def is_cont_def)
  have x0: "x = 0 \<longrightarrow> 32 \<le> y"
    using assms(3) by (auto simp: accept_second_def x_def y_def)
  have x13: "x = 13 \<longrightarrow> y \<le> 31"
    using assms(3) by (auto simp: accept_second_def x_def y_def)
  have m: "b0 mod 16 = x" "b1 mod 64 = y" "b2 mod 64 = z"
    using x y z by (simp_all add: b lead3_mod cont_mod)
  let ?r = "4096 * x + 64 * y + z"
  have r64: "?r = 64 * (64 * x + y) + z" by simp
  have d1: "?r mod 64 = z" "?r div 64 = 64 * x + y"
    unfolding r64 using z by (simp_all only: digit_div digit_mod)
  have d2: "(64 * x + y) mod 64 = y" "(64 * x + y) div 64 = x"
    using y by (simp_all only: digit_div digit_mod)
  have d3: "?r div 4096 = x"
    using d1(2) d2(2) div_4096 [of ?r] by simp
  have lo: "0x800 \<le> ?r"
  proof (cases "x = 0")
    case True
    with x0 y z show ?thesis by simp
  next
    case False
    with x y z show ?thesis by linarith
  qed
  consider "x \<le> 12" | "x = 13" | "14 \<le> x" by linarith
  then have su: "\<not> (0xD800 \<le> ?r \<and> ?r \<le> 0xDFFF)"
  proof cases
    case 1
    with y z show ?thesis by linarith
  next
    case 2
    with x13 y z show ?thesis by simp
  next
    case 3
    with y z show ?thesis by linarith
  qed
  have c: "\<not> ?r < 0" "\<not> ?r \<le> 0x7F" "\<not> ?r \<le> 0x7FF" "\<not> 0x10FFFF < ?r" "?r \<le> 0xFFFF"
    using lo x y z by linarith+
  have "encode_rune ?r = [0xE0 + x, 0x80 + y, 0x80 + z]"
    by (simp only: encode_rune_def c su d1 d2 d3 if_True if_False simp_thms)
  then show ?thesis
    unfolding m by (simp add: b mult.commute)
qed

lemma encode_decode_4:
  assumes "0xF0 \<le> b0" and "b0 < 0xF5" and "accept_second b0 b1" and "is_cont b2"
    and "is_cont b3"
  shows "encode_rune ((b0 mod 8) * 262144 + (b1 mod 64) * 4096 + (b2 mod 64) * 64 + b3 mod 64)
           = [b0, b1, b2, b3]"
proof -
  define x y z u where "x = b0 - 0xF0" and "y = b1 - 0x80" and "z = b2 - 0x80"
    and "u = b3 - 0x80"
  have b: "b0 = 0xF0 + x" "b1 = 0x80 + y" "b2 = 0x80 + z" "b3 = 0x80 + u"
    by (simp_all add: x_def y_def z_def u_def)
  have x: "0 \<le> x" "x < 5" using assms(1,2) by (simp_all add: x_def)
  have y: "0 \<le> y" "y < 64"
    using accept_second_cont [OF assms(3)] by (simp_all add: y_def is_cont_def)
  have z: "0 \<le> z" "z < 64" using assms(4) by (simp_all add: z_def is_cont_def)
  have u: "0 \<le> u" "u < 64" using assms(5) by (simp_all add: u_def is_cont_def)
  have x0: "x = 0 \<longrightarrow> 16 \<le> y"
    using assms(3) by (auto simp: accept_second_def x_def y_def)
  have x4: "x = 4 \<longrightarrow> y \<le> 15"
    using assms(3) by (auto simp: accept_second_def x_def y_def)
  have m: "b0 mod 8 = x" "b1 mod 64 = y" "b2 mod 64 = z" "b3 mod 64 = u"
    using x y z u by (simp_all add: b lead4_mod cont_mod)
  let ?r = "262144 * x + 4096 * y + 64 * z + u"
  have r64: "?r = 64 * (4096 * x + 64 * y + z) + u" by simp
  have d1: "?r mod 64 = u" "?r div 64 = 4096 * x + 64 * y + z"
    unfolding r64 using u by (simp_all only: digit_div digit_mod)
  have q64: "4096 * x + 64 * y + z = 64 * (64 * x + y) + z" by simp
  have d2: "(4096 * x + 64 * y + z) mod 64 = z" "(4096 * x + 64 * y + z) div 64 = 64 * x + y"
    unfolding q64 using z by (simp_all only: digit_div digit_mod)
  have d3: "(64 * x + y) mod 64 = y" "(64 * x + y) div 64 = x"
    using y by (simp_all only: digit_div digit_mod)
  have d4: "?r div 4096 = 64 * x + y"
    using d1(2) d2(2) div_4096 [of ?r] by simp
  have d5: "?r div 262144 = x"
    using d4 d3(2) div_262144 [of ?r] by simp
  have lo: "0x10000 \<le> ?r"
  proof (cases "x = 0")
    case True
    with x0 y z u show ?thesis by simp
  next
    case False
    with x y z u show ?thesis by linarith
  qed
  have hi: "?r \<le> 0x10FFFF"
  proof (cases "x = 4")
    case True
    with x4 y z u show ?thesis by simp
  next
    case False
    with x y z u show ?thesis by linarith
  qed
  have c: "\<not> ?r < 0" "\<not> ?r \<le> 0x7F" "\<not> ?r \<le> 0x7FF" "\<not> 0x10FFFF < ?r"
    "\<not> (0xD800 \<le> ?r \<and> ?r \<le> 0xDFFF)" "\<not> ?r \<le> 0xFFFF"
    using lo hi by linarith+
  have "encode_rune ?r = [0xF0 + x, 0x80 + y, 0x80 + z, 0x80 + u]"
    by (simp only: encode_rune_def c d1 d2 d3 d4 d5 if_True if_False simp_thms)
  then show ?thesis
    unfolding m by (simp add: b mult.commute)
qed

lemma encode_decode:
  assumes "decode_bytes bs = (r, w)" and "\<not> (r = RuneError \<and> w = 1)"
    and "bs \<noteq> []" and "\<forall>b\<in>set bs. 0 \<le> b"
  shows "encode_rune r = take w bs \<and> 1 \<le> w \<and> w \<le> length bs"
proof -
  from assms(3) obtain b0 t where bs: "bs = b0 # t" by (cases bs) auto
  from assms(4) have nn: "0 \<le> b0" by (simp add: bs)
  consider "b0 < 0x80" | "0x80 \<le> b0 \<and> (b0 < 0xC2 \<or> 0xF5 \<le> b0)"
    | "0xC2 \<le> b0 \<and> b0 < 0xE0" | "0xE0 \<le> b0 \<and> b0 < 0xF0" | "0xF0 \<le> b0 \<and> b0 < 0xF5"
    by linarith
  then show ?thesis
  proof cases
    case 1
    with assms(1) nn show ?thesis by (auto simp: bs encode_rune_def)
  next
    case 2
    with assms(1,2) show ?thesis by (auto simp: bs)
  next
    case 3
    show ?thesis
    proof (cases t)
      case Nil
      with 3 assms(1,2) show ?thesis by (auto simp: bs)
    next
      case (Cons b1 t1)
      with 3 assms(1,2) have a: "accept_second b0 b1"
        and rw: "r = (b0 mod 32) * 64 + b1 mod 64" "w = 2"
        by (auto simp: bs split: if_splits)
      from a have "is_cont b1" by (rule accept_second_cont)
      with 3 have "encode_rune r = [b0, b1]"
        unfolding rw by (intro encode_decode_2) simp_all
      then show ?thesis by (simp add: rw bs Cons)
    qed
  next
    case 4
    show ?thesis
    proof (cases t)
      case Nil
      with 4 assms(1,2) show ?thesis by (auto simp: bs)
    next
      case c1: (Cons b1 t1)
      show ?thesis
      proof (cases t1)
        case Nil
        with c1 4 assms(1,2) show ?thesis by (auto simp: bs)
      next
        case c2: (Cons b2 t2)
        with c1 4 assms(1,2) have a: "accept_second b0 b1" "is_cont b2"
          and rw: "r = (b0 mod 16) * 4096 + (b1 mod 64) * 64 + b2 mod 64" "w = 3"
          by (auto simp: bs split: if_splits)
        from 4 a have "encode_rune r = [b0, b1, b2]"
          unfolding rw by (intro encode_decode_3) simp_all
        then show ?thesis by (simp add: rw bs c1 c2)
      qed
    qed
  next
    case 5
    show ?thesis
    proof (cases t)
      case Nil
      with 5 assms(1,2) show ?thesis by (auto simp: bs)
    next
      case c1: (Cons b1 t1)
      show ?thesis
      proof (cases t1)
        case Nil
        with c1 5 assms(1,2) show ?thesis by (auto simp: bs)
      next
        case c2: (Cons b2 t2)
        show ?thesis
        proof (cases t2)
          case Nil
          with c1 c2 5 assms(1,2) show ?thesis by (auto simp: bs)
        next
          case c3: (Cons b3 t3)
          with c1 c2 5 assms(1,2) have a: "accept_second b0 b1" "is_cont b2" "is_cont b3"
            and rw: "r = (b0 mod 8) * 262144 + (b1 mod 64) * 4096 + (b2 mod 64) * 64 + b3 mod 64"
              "w = 4"
            by (auto simp: bs split: if_splits)
          from 5 a have "encode_rune r = [b0, b1, b2, b3]"
            unfolding rw by (intro encode_decode_4) simp_all
          then show ?thesis by (simp add: rw bs c1 c2 c3)
        qed
      qed
    qed
  qed
qed

lemma string_of_runes_runes_of:
  "ValidString s \<Longrightarrow> string_of_runes (runes_of s) = s"
proof (induction s rule: runes_of.induct)
  case 1
  show ?case by (simp add: string_of_runes_def)
next
  case (2 c cs)
  obtain r w where d: "DecodeRuneInString (c # cs) = (r, w)"
    by (cases "DecodeRuneInString (c # cs)") auto
  from "2.prems" d have v: "\<not> (r = RuneError \<and> w = 1)" "ValidString (drop (w - 1) cs)"
    by simp_all
  let ?bs = "map of_char (take 4 (c # cs)) :: int list"
  have "decode_bytes ?bs = (r, w)"
    using d by (simp add: DecodeRuneInString_def)
  moreover have "?bs \<noteq> []" by simp
  moreover have "\<forall>b\<in>set ?bs. 0 \<le> b"
    using of_char_int_range by auto
  ultimately have e: "encode_rune r = take w ?bs" and w: "1 \<le> w" "w \<le> length ?bs"
    using encode_decode [of ?bs r w] v(1) by blast+
  from w(2) have w4: "w \<le> 4" by simp
  have m1: "map char_of ?bs = take 4 (c # cs)"
    by (simp only: map_map char_of_comp_of_char list.map_id)
  have "map char_of (encode_rune r) = map char_of (take w ?bs)"
    by (simp only: e)
  also have "\<dots> = take w (map char_of ?bs)"
    by (rule take_map [symmetric])
  also have "\<dots> = take w (take 4 (c # cs))"
    by (simp only: m1)
  also have "\<dots> = take w (c # cs)"
    using w4 by (simp only: take_take min_absorb1)
  finally have enc: "map char_of (encode_rune r) = take w (c # cs)" .
  have rest: "drop (w - 1) cs = drop w (c # cs)"
    using w(1) by (cases w) simp_all
  have "string_of_runes (runes_of (c # cs))
          = map char_of (encode_rune r) @ string_of_runes (runes_of (drop (w - 1) cs))"
    by (simp add: d string_of_runes_Cons)
  also have "\<dots> = take w (c # cs) @ drop w (c # cs)"
    using "2.IH" [OF d [symmetric] v(2)] by (simp only: enc rest)
  finally show ?case by simp
qed

section \<open>Properties of ChunkSplit\<close>

lemma chunks_of_short: "xs \<noteq> [] \<Longrightarrow> length xs \<le> k \<Longrightarrow> chunks_of k xs = [xs]"
  by (cases xs) auto

lemma chunks_of_step:
  "0 < k \<Longrightarrow> xs \<noteq> [] \<Longrightarrow> chunks_of k xs = take k xs # chunks_of k (drop k xs)"
  by (cases xs; cases k) simp_all

lemma concat_chunks_of: "concat (chunks_of k xs) = xs"
proof (induction k xs rule: chunks_of.induct)
  case (1 k)
  show ?case by simp
next
  case (2 k x xs)
  show ?case
  proof (cases "k = 0")
    case True
    then show ?thesis by simp
  next
    case False
    then obtain j where k: "k = Suc j" by (cases k) auto
    with 2 False show ?thesis by simp
  qed
qed

lemma butlast_chunks_of:
  "0 < k \<Longrightarrow> \<forall>c\<in>set (butlast (chunks_of k xs)). length c = k"
proof (induction k xs rule: chunks_of.induct)
  case (1 k)
  show ?case by simp
next
  case (2 k x xs)
  then obtain j where k: "k = Suc j" by (cases k) auto
  show ?case
  proof (cases "chunks_of k (drop (k - 1) xs) = []")
    case True
    with 2 show ?thesis by simp
  next
    case False
    then have "drop j xs \<noteq> []" by (auto simp: k)
    then have "j < length xs" by simp
    with 2 False show ?thesis by (auto simp: k)
  qed
qed

lemma last_chunks_of:
  "0 < k \<Longrightarrow> xs \<noteq> [] \<Longrightarrow>
     chunks_of k xs \<noteq> [] \<and> last (chunks_of k xs) \<noteq> [] \<and> length (last (chunks_of k xs)) \<le> k"
proof (induction k xs rule: chunks_of.induct)
  case (1 k)
  then show ?case by simp
next
  case (2 k x xs)
  then obtain j where k: "k = Suc j" by (cases k) auto
  show ?case
  proof (cases "drop (k - 1) xs = []")
    case True
    then show ?thesis by (simp add: k)
  next
    case False
    with 2 show ?thesis by (simp add: k)
  qed
qed

lemma concat_chunk_strings:
  "concat (map string_of_runes chunks) = string_of_runes (concat chunks)"
  by (induction chunks) (simp_all add: string_of_runes_def)

lemma append_rune_elems: "rs_elems (append_rune grow s r) = rs_elems s @ [r]"
  by (simp add: append_rune_def)

lemma append_runes_elems:
  assumes "\<forall>c n. n \<le> grow c n" and "length (rs_elems s) \<le> rs_cap s"
  shows "rs_elems (append_runes grow s rs) = rs_elems s @ rs
         \<and> length (rs_elems (append_runes grow s rs)) \<le> rs_cap (append_runes grow s rs)"
  using assms(2)
proof (induction rs arbitrary: s)
  case Nil
  then show ?case by simp
next
  case (Cons r rs)
  have "length (rs_elems (append_rune grow s r)) \<le> rs_cap (append_rune grow s r)"
    using Cons.prems assms(1) by (auto simp: append_rune_def)
  note ih = Cons.IH [OF this]
  note a = ih [THEN conjunct1] and b = ih [THEN conjunct2]
  show ?case
  proof (intro conjI)
    show "rs_elems (append_runes grow s (r # rs)) = rs_elems s @ r # rs"
      using a by (simp add: append_rune_elems)
    show "length (rs_elems (append_runes grow s (r # rs))) \<le> rs_cap (append_runes grow s (r # rs))"
      using b by simp
  qed
qed

lemma chunk_loop_chunks:
  assumes "length (rs_elems s) \<le> rs_cap s"
    and "rs_elems s = [] \<or> (0 < limit \<and> nat limit \<le> length (rs_elems s))"
  shows "chunk_loop s limit result
           = Some (Inr (result @ map string_of_runes (chunks_of (nat limit) (rs_elems s))))"
  using assms
proof (induction "length (rs_elems s)" arbitrary: s limit result rule: less_induct)
  case less
  show ?case
  proof (cases "rs_elems s = []")
    case True
    then show ?thesis by (simp add: chunk_loop.simps)
  next
    case False
    with less.prems(2) have k: "0 < limit" "nat limit \<le> length (rs_elems s)" by simp_all
    let ?k = "nat limit"
    let ?s' = "\<lparr>rs_elems = drop ?k (rs_elems s), rs_cap = rs_cap s - ?k\<rparr>"
    let ?l' = "if int (length (rs_elems ?s')) < limit then int (length (rs_elems ?s')) else limit"
    have to: "slice_to s limit = Inr (take ?k (rs_elems s))"
      using k less.prems(1) by (simp add: slice_to_def)
    have fr: "slice_from s limit = Inr ?s'"
      using k by (simp add: slice_from_def)
    have ge: "1 \<le> length (rs_elems s)"
      using False by (cases "rs_elems s") auto
    have step: "chunk_loop s limit result
                  = chunk_loop ?s' ?l' (result @ [string_of_runes (take ?k (rs_elems s))])"
      using ge by (subst chunk_loop.simps) (simp add: to fr)
    have smaller: "length (rs_elems ?s') < length (rs_elems s)"
      using k False by simp
    have cap: "length (rs_elems ?s') \<le> rs_cap ?s'"
      using less.prems(1) by simp
    have inv: "rs_elems ?s' = [] \<or> (0 < ?l' \<and> nat ?l' \<le> length (rs_elems ?s'))"
      using k by auto
    have same: "chunks_of (nat ?l') (rs_elems ?s') = chunks_of ?k (rs_elems ?s')"
    proof (cases "int (length (rs_elems ?s')) < limit")
      case True
      show ?thesis
      proof (cases "rs_elems ?s' = []")
        case True
        then show ?thesis by simp
      next
        case ne: False
        have "chunks_of (length (rs_elems ?s')) (rs_elems ?s') = [rs_elems ?s']"
          using ne by (intro chunks_of_short) simp_all
        moreover have "length (rs_elems ?s') \<le> ?k"
          using True by linarith
        then have "chunks_of ?k (rs_elems ?s') = [rs_elems ?s']"
          using ne by (intro chunks_of_short)
        ultimately show ?thesis using True by simp
      qed
    next
      case False
      then show ?thesis by simp
    qed
    have cs: "chunks_of ?k (rs_elems s) = take ?k (rs_elems s) # chunks_of ?k (rs_elems ?s')"
      using k False by (simp add: chunks_of_step)
    have "chunk_loop ?s' ?l' (result @ [string_of_runes (take ?k (rs_elems s))])
            = Some (Inr ((result @ [string_of_runes (take ?k (rs_elems s))])
                         @ map string_of_runes (chunks_of (nat ?l') (rs_elems ?s'))))"
      using smaller cap inv by (rule less.hyps)
    also have "\<dots> = Some (Inr (result @ map string_of_runes (chunks_of ?k (rs_elems s))))"
      by (simp only: same cs) simp
    finally show ?thesis using step by simp
  qed
qed

lemma chunk_loop_panics:
  assumes "rs_elems s \<noteq> []" and "int (length (rs_elems s)) < limit"
  shows "chunk_loop s limit result
           = Some (Inl (if nat limit \<le> rs_cap s then LowOutOfRange limit (length (rs_elems s))
                        else HighOutOfRange limit (rs_cap s)))"
proof -
  from assms(1) have "1 \<le> length (rs_elems s)" by (cases "rs_elems s") auto
  with assms(2) show ?thesis
    by (subst chunk_loop.simps) (auto simp: slice_to_def slice_from_def)
qed

lemma ChunkSplit_start:
  assumes "\<forall>c n. n \<le> grow c n"
  shows "rs_elems (append_runes grow nil_slice (runes_of body)) = runes_of body
         \<and> length (runes_of body) \<le> rs_cap (append_runes grow nil_slice (runes_of body))"
proof -
  let ?s = "append_runes grow nil_slice (runes_of body)"
  have "length (rs_elems nil_slice) \<le> rs_cap nil_slice" by (simp add: nil_slice_def)
  from append_runes_elems [OF assms this, of "runes_of body"]
  have a: "rs_elems ?s = rs_elems nil_slice @ runes_of body"
    and b: "length (rs_elems ?s) \<le> rs_cap ?s" by blast+
  have a': "rs_elems ?s = runes_of body" using a by (simp add: nil_slice_def)
  show ?thesis using a' b by metis
qed

lemma ChunkSplit_returns:
  assumes "\<forall>c n. n \<le> grow c n" and "0 < limit"
    and "RuneCountInString body = 0 \<or> nat limit \<le> RuneCountInString body"
  shows "ChunkSplit grow body limit
           = Some (Inr (map string_of_runes (chunks_of (nat limit) (runes_of body))))"
proof -
  let ?s = "append_runes grow nil_slice (runes_of body)"
  note st = ChunkSplit_start [OF assms(1), of body]
  have "length (rs_elems ?s) \<le> rs_cap ?s" using st by simp
  moreover have "rs_elems ?s = [] \<or> (0 < limit \<and> nat limit \<le> length (rs_elems ?s))"
    using st assms(2,3) by (auto simp: RuneCountInString_def)
  ultimately have "chunk_loop ?s limit []
      = Some (Inr ([] @ map string_of_runes (chunks_of (nat limit) (rs_elems ?s))))"
    by (rule chunk_loop_chunks)
  then show ?thesis using st by (simp add: ChunkSplit_def)
qed

lemma ChunkSplit_panics:
  assumes "\<forall>c n. n \<le> grow c n"
    and "0 < RuneCountInString body" and "int (RuneCountInString body) < limit"
  shows "ChunkSplit grow body limit
           = Some (Inl (if nat limit \<le> rs_cap (append_runes grow nil_slice (runes_of body))
                        then LowOutOfRange limit (RuneCountInString body)
                        else HighOutOfRange limit
                               (rs_cap (append_runes grow nil_slice (runes_of body)))))"
proof -
  let ?s = "append_runes grow nil_slice (runes_of body)"
  note st = ChunkSplit_start [OF assms(1), of body]
  have "rs_elems ?s \<noteq> []" using st assms(2) by (auto simp: RuneCountInString_def)
  moreover have "int (length (rs_elems ?s)) < limit"
    using st assms(3) by (simp add: RuneCountInString_def)
  ultimately have "chunk_loop ?s limit []
      = Some (Inl (if nat limit \<le> rs_cap ?s then LowOutOfRange limit (length (rs_elems ?s))
                   else HighOutOfRange limit (rs_cap ?s)))"
    by (rule chunk_loop_panics)
  then show ?thesis using st by (simp add: ChunkSplit_def RuneCountInString_def)
qed

lemma chunk_loop_high_panic:
  "chunk_loop \<lparr>rs_elems = [r], rs_cap = c\<rparr> (int c + 1) []
     = Some (Inl (HighOutOfRange (int c + 1) c))"
proof -
  have n: "\<not> nat (int c + 1) \<le> c" by linarith
  have t: "slice_to \<lparr>rs_elems = [r], rs_cap = c\<rparr> (int c + 1)
             = Inl (HighOutOfRange (int c + 1) c)"
    using n by (simp add: slice_to_def)
  show ?thesis
    by (subst chunk_loop.simps) (simp add: t)
qed

lemma ChunkSplit_high_panic:
  "ChunkSplit grow ''a'' (int (grow 0 1) + 1)
     = Some (Inl (HighOutOfRange (int (grow 0 1) + 1) (grow 0 1)))"
proof -
  have r: "runes_of ''a'' = [97]" by code_simp
  have s: "append_runes grow nil_slice [97] = \<lparr>rs_elems = [97], rs_cap = grow 0 1\<rparr>"
    by (simp add: nil_slice_def append_rune_def)
  show ?thesis
    unfolding ChunkSplit_def r s by (rule chunk_loop_high_panic)
qed

text \<open>
  Claim C10, amended.  Let \<open>limit > 0\<close>, and let the runtime grow slices in any way that
  gives room for the element appended.  If the rune count of \<open>body\<close> is zero or at least
  \<open>limit\<close>, \<open>ChunkSplit\<close> returns the runes of \<open>body\<close> cut into chunks of \<open>limit\<close>
  runes, the last chunk taking what is left, each converted to a string: every chunk but
  the last has exactly \<open>limit\<close> runes, the last has at least one and at most \<open>limit\<close>,
  and the concatenation of the chunks is the UTF-8 encoding of the runes of \<open>body\<close>,
  which is \<open>body\<close> when \<open>body\<close> is valid UTF-8.  If the rune count is above zero and
  below \<open>limit\<close>, \<open>ChunkSplit\<close> panics: at \<open>charSlice[:limit]\<close> when \<open>limit\<close>
  exceeds the capacity of the slice, at \<open>charSlice[limit:]\<close> otherwise.  For some such
  body and limit it is \<open>charSlice[:limit]\<close> that is out of range.
\<close>

theorem ChunkSplit_chunks:
  assumes "\<forall>c n. n \<le> grow c n" and "0 < limit"
  shows "(RuneCountInString body = 0 \<or> nat limit \<le> RuneCountInString body \<longrightarrow>
            (\<exists>chunks. ChunkSplit grow body limit = Some (Inr chunks)
               \<and> chunks = map string_of_runes (chunks_of (nat limit) (runes_of body))
               \<and> (\<forall>c\<in>set (butlast chunks). RuneCountInString c = nat limit)
               \<and> (chunks \<noteq> [] \<longrightarrow> 0 < RuneCountInString (last chunks)
                                  \<and> RuneCountInString (last chunks) \<le> nat limit)
               \<and> concat chunks = string_of_runes (runes_of body)
               \<and> (ValidString body \<longrightarrow> concat chunks = body)))
         \<and> (0 < RuneCountInString body \<and> int (RuneCountInString body) < limit \<longrightarrow>
            ChunkSplit grow body limit
              = Some (Inl (if nat limit \<le> rs_cap (append_runes grow nil_slice (runes_of body))
                           then LowOutOfRange limit (RuneCountInString body)
                           else HighOutOfRange limit
                                  (rs_cap (append_runes grow nil_slice (runes_of body))))))
         \<and> (\<exists>b l c. 0 < RuneCountInString b \<and> int (RuneCountInString b) < l
                \<and> ChunkSplit grow b l = Some (Inl (HighOutOfRange l c)))"
proof -
  let ?k = "nat limit"
  let ?cs = "chunks_of ?k (runes_of body)"
  let ?chunks = "map string_of_runes ?cs"
  from assms(2) have k: "0 < ?k" by simp
  have b: "\<forall>c\<in>set (butlast ?chunks). RuneCountInString c = ?k"
    using butlast_chunks_of [OF k, of "runes_of body"]
    by (auto simp: map_butlast [symmetric] RuneCount_string_of_runes)
  have l: "0 < RuneCountInString (last ?chunks) \<and> RuneCountInString (last ?chunks) \<le> ?k"
    if "?chunks \<noteq> []"
  proof -
    from that have ne: "runes_of body \<noteq> []" by auto
    from that have "last ?chunks = string_of_runes (last ?cs)" by (simp add: last_map)
    with last_chunks_of [OF k ne] show ?thesis
      by (simp add: RuneCount_string_of_runes)
  qed
  have c: "concat ?chunks = string_of_runes (runes_of body)"
    by (simp only: concat_chunk_strings concat_chunks_of)
  have v: "concat ?chunks = body" if "ValidString body"
    using that c by (simp add: string_of_runes_runes_of)
  have 1: "\<exists>chunks. ChunkSplit grow body limit = Some (Inr chunks)
               \<and> chunks = ?chunks
               \<and> (\<forall>c\<in>set (butlast chunks). RuneCountInString c = ?k)
               \<and> (chunks \<noteq> [] \<longrightarrow> 0 < RuneCountInString (last chunks)
                                  \<and> RuneCountInString (last chunks) \<le> ?k)
               \<and> concat chunks = string_of_runes (runes_of body)
               \<and> (ValidString body \<longrightarrow> concat chunks = body)"
    if "RuneCountInString body = 0 \<or> ?k \<le> RuneCountInString body"
    using ChunkSplit_returns [OF assms that] b l c v by blast
  have 2: "ChunkSplit grow body limit
              = Some (Inl (if ?k \<le> rs_cap (append_runes grow nil_slice (runes_of body))
                           then LowOutOfRange limit (RuneCountInString body)
                           else HighOutOfRange limit
                                  (rs_cap (append_runes grow nil_slice (runes_of body)))))"
    if "0 < RuneCountInString body" "int (RuneCountInString body) < limit"
    using assms(1) that by (rule ChunkSplit_panics)
  have r: "RuneCountInString ''a'' = 1" by code_simp
  have 3: "\<exists>b l c. 0 < RuneCountInString b \<and> int (RuneCountInString b) < l
                \<and> ChunkSplit grow b l = Some (Inl (HighOutOfRange l c))"
  proof (intro exI conjI)
    show "0 < RuneCountInString ''a''" by (simp add: r)
    have "1 \<le> grow 0 1" using assms(1) by blast
    then show "int (RuneCountInString ''a'') < int (grow 0 1) + 1" by (simp add: r)
    show "ChunkSplit grow ''a'' (int (grow 0 1) + 1)
            = Some (Inl (HighOutOfRange (int (grow 0 1) + 1) (grow 0 1)))"
      by (rule ChunkSplit_high_panic)
  qed
  from 1 2 3 show ?thesis by blast
qed

theorem ChunkSplit_chunks_witness:
  "(\<forall>c n. n \<le> grow_small c n)
   \<and> ChunkSplit grow_small ''abcde'' 2 = Some (Inr [''ab'', ''cd'', ''e''])
   \<and> concat [''ab'', ''cd'', ''e''] = ''abcde''
   \<and> ChunkSplit grow_small ''a'' 3 = Some (Inl (HighOutOfRange 3 2))
   \<and> ChunkSplit grow_small ''a'' 2 = Some (Inl (LowOutOfRange 2 1))"
proof -
  have g: "\<forall>c n. n \<le> grow_small c n" by (simp add: grow_small_def)
  have n5: "RuneCountInString ''abcde'' = 0 \<or> nat 2 \<le> RuneCountInString ''abcde''"
    by code_simp
  have n1: "0 < RuneCountInString ''a'' \<and> int (RuneCountInString ''a'') < 3"
    by code_simp
  have n2: "0 < RuneCountInString ''a'' \<and> int (RuneCountInString ''a'') < 2"
    by code_simp
  have v1: "map string_of_runes (chunks_of (nat 2) (runes_of ''abcde'')) = [''ab'', ''cd'', ''e'']"
    by code_simp
  have v2: "(if nat 3 \<le> rs_cap (append_runes grow_small nil_slice (runes_of ''a''))
             then LowOutOfRange 3 (RuneCountInString ''a'')
             else HighOutOfRange 3 (rs_cap (append_runes grow_small nil_slice (runes_of ''a''))))
            = HighOutOfRange 3 2"
    by code_simp
  have v3: "(if nat 2 \<le> rs_cap (append_runes grow_small nil_slice (runes_of ''a''))
             then LowOutOfRange 2 (RuneCountInString ''a'')
             else HighOutOfRange 2 (rs_cap (append_runes grow_small nil_slice (runes_of ''a''))))
            = LowOutOfRange 2 1"
    by code_simp
  have a: "ChunkSplit grow_small ''abcde'' 2 = Some (Inr [''ab'', ''cd'', ''e''])"
    using ChunkSplit_chunks [OF g, of 2 "''abcde''"] n5 unfolding v1 by auto
  have b: "ChunkSplit grow_small ''a'' 3 = Some (Inl (HighOutOfRange 3 2))"
    using ChunkSplit_chunks [OF g, of 3 "''a''"] n1 unfolding v2 by simp
  have c: "ChunkSplit grow_small ''a'' 2 = Some (Inl (LowOutOfRange 2 1))"
    using ChunkSplit_chunks [OF g, of 2 "''a''"] n2 unfolding v3 by simp
  from g a b c show ?thesis by simp
qed

text \<open>
  The claim as stated fails on a body that is not valid UTF-8: the byte \<open>0xFF\<close> is one
  rune, \<open>RuneError\<close>, and with limit 1 the one chunk returned is the encoding of
  \<open>U+FFFD\<close>, three bytes that are not the body.
\<close>

theorem ChunkSplit_counterexample:
  "RuneCountInString [CHR 0xFF] = 1
   \<and> ChunkSplit grow_small [CHR 0xFF] 1 = Some (Inr [[CHR 0xEF, CHR 0xBF, CHR 0xBD]])
   \<and> concat [[CHR 0xEF, CHR 0xBF, CHR 0xBD]] \<noteq> [CHR 0xFF]"
  by code_simp

end
